theory Spec2Isabelle
  imports Complex_Main
begin

section \<open>The page-behaviour controller of assets/js/main.js\<close>

text \<open>
  The class \<open>LCGlobalEnterprises\<close> wires listeners to a browser document and reacts to
  events by reading and writing properties of elements. The model has three layers:
  \<^item> a store from element references to the element properties the code touches;
  \<^item> a \<open>document\<close> record with the results of the selector queries the code makes
    (\<open>getElementById\<close>, \<open>querySelector\<close>, \<open>querySelectorAll\<close>); a query that finds
    nothing is \<open>None\<close> or the empty list, as \<open>null\<close> or an empty NodeList in the source;
  \<^item> the variables closed over by the listeners and the queues of the browser
    (animation frame callbacks, timers, pending fetches), as fields of the state.
  An exception of the source (reading a property of \<open>null\<close>, an invalid selector) is a
  completion value next to the state reached when it was raised.
\<close>

subsection \<open>Elements and the store\<close>

type_synonym node = nat

text \<open>
  JavaScript numbers that the code computes by division: \<open>None\<close> is a non-finite result
  (a division by 0). Finite numbers are exact rationals; the rounding of doubles is not
  modelled.
\<close>

type_synonym num = "rat option"

text \<open>
  Values assigned to inline style properties: plain string literals, and the two template
  literals of \<open>updateParallax\<close>, kept symbolic in their two interpolated numbers.
\<close>

datatype css =
    Str string
  | TranslatePx num num
  | RotateXYDeg num num

record validity =
  valid :: bool
  valueMissing :: bool
  typeMismatch :: bool

record element =
  attributes :: "string \<Rightarrow> string option"
  classList :: "string list"
  style :: "string \<Rightarrow> css"
  textContent :: string
  disabled :: bool
  fieldValue :: string
  defaultValue :: string
  fieldName :: string
  fieldType :: string
  constraints :: "string \<Rightarrow> validity"
  offsetTop :: int
  offsetHeight :: int

datatype error = TypeError | SyntaxError

datatype completion = Normal | Throw error

datatype selected = InvalidSelector | Selected "node option"

record form =
  action :: string
  requiredFields :: "node list"
  btnSubmit :: "node option"
  controls :: "node list"

record document =
  body :: node
  navToggle :: "node option"
  navMenu :: "node option"
  navLinks :: "node list"
  siteHeader :: "node option"
  anchorLinks :: "node list"
  querySelector :: "string \<Rightarrow> selected"
  contactForm :: "form option"
  formStatus :: "node option"
  errorMessage :: "node \<Rightarrow> node option"
  hero :: "node option"
  floatingOrbs :: "node list"
  floatingCubes :: "node list"
  animatedElements :: "node list"
  path :: "node \<Rightarrow> node list"

record request =
  url :: string
  httpMethod :: string
  requestBody :: "(string \<times> string) list"
  headers :: "(string \<times> string) list"

datatype callback = UpdateHeader node | UpdateParallax

record state =
  store :: "node \<Rightarrow> element"
  uncaught :: "error list"
  scrollY :: int
  lastScrollY :: int
  ticking :: bool
  frameCallbacks :: "(nat \<times> callback) list"
  frameCallbackId :: nat
  scrollRequests :: "int list"
  mouseX :: num
  mouseY :: num
  rafId :: "nat option"
  observed :: "node list"
  requests :: "request list"
  pendingFetches :: nat
  statusTimers :: nat
  innerWidth :: int
  resizeTimeout :: bool

definition update :: "node \<Rightarrow> (element \<Rightarrow> element) \<Rightarrow> state \<Rightarrow> state" where
  "update n f s = s\<lparr>store := (store s)(n := f (store s n))\<rparr>"

definition getAttribute :: "node \<Rightarrow> string \<Rightarrow> state \<Rightarrow> string option" where
  "getAttribute n a s = attributes (store s n) a"

definition setAttribute :: "node \<Rightarrow> string \<Rightarrow> string \<Rightarrow> state \<Rightarrow> state" where
  "setAttribute n a v = update n (\<lambda>e. e\<lparr>attributes := (attributes e)(a \<mapsto> v)\<rparr>)"

definition classList_contains :: "node \<Rightarrow> string \<Rightarrow> state \<Rightarrow> bool" where
  "classList_contains n c s = (c \<in> set (classList (store s n)))"

definition classList_add :: "node \<Rightarrow> string \<Rightarrow> state \<Rightarrow> state" where
  "classList_add n c =
     update n (\<lambda>e. if c \<in> set (classList e) then e else e\<lparr>classList := classList e @ [c]\<rparr>)"

definition classList_remove :: "node \<Rightarrow> string \<Rightarrow> state \<Rightarrow> state" where
  "classList_remove n c = update n (\<lambda>e. e\<lparr>classList := removeAll c (classList e)\<rparr>)"

definition classList_toggle :: "node \<Rightarrow> string \<Rightarrow> state \<Rightarrow> state" where
  "classList_toggle n c s =
     (if classList_contains n c s then classList_remove n c s else classList_add n c s)"

definition setStyle :: "node \<Rightarrow> string \<Rightarrow> css \<Rightarrow> state \<Rightarrow> state" where
  "setStyle n p v = update n (\<lambda>e. e\<lparr>style := (style e)(p := v)\<rparr>)"

definition getStyle :: "node \<Rightarrow> string \<Rightarrow> state \<Rightarrow> css" where
  "getStyle n p s = style (store s n) p"

text \<open>
  A listener that throws does not stop the event loop: the browser reports the exception
  and goes on. \<open>run\<close> records the exception in \<open>uncaught\<close>.
\<close>

definition run :: "(state \<Rightarrow> completion \<times> state) \<Rightarrow> state \<Rightarrow> state" where
  "run h s =
     (case h s of
        (Normal, s') \<Rightarrow> s'
      | (Throw e, s') \<Rightarrow> s'\<lparr>uncaught := uncaught s' @ [e]\<rparr>)"

subsection \<open>Mobile navigation\<close>

text \<open>\<open>toggleMobileMenu(toggle, menu)\<close>; \<open>!isExpanded\<close> is stored as its string.\<close>

definition toggleMobileMenu :: "document \<Rightarrow> node option \<Rightarrow> node option \<Rightarrow> state \<Rightarrow> completion \<times> state" where
  "toggleMobileMenu d toggle menu s =
     (case toggle of
        None \<Rightarrow> (Throw TypeError, s)
      | Some t \<Rightarrow>
          let isExpanded = (getAttribute t ''aria-expanded'' s = Some ''true'');
              s1 = setAttribute t ''aria-expanded'' (if \<not> isExpanded then ''true'' else ''false'') s
          in (case menu of
                None \<Rightarrow> (Throw TypeError, s1)
              | Some m \<Rightarrow>
                  let s2 = classList_toggle m ''active'' s1
                  in (Normal,
                      setStyle (body d) ''overflow''
                        (if classList_contains m ''active'' s2 then Str ''hidden'' else Str '''') s2)))"

text \<open>\<open>closeMobileMenu(toggle, menu)\<close>.\<close>

definition closeMobileMenu :: "document \<Rightarrow> node option \<Rightarrow> node option \<Rightarrow> state \<Rightarrow> completion \<times> state" where
  "closeMobileMenu d toggle menu s =
     (case toggle of
        None \<Rightarrow> (Throw TypeError, s)
      | Some t \<Rightarrow>
          let s1 = setAttribute t ''aria-expanded'' ''false'' s
          in (case menu of
                None \<Rightarrow> (Throw TypeError, s1)
              | Some m \<Rightarrow>
                  let s2 = classList_remove m ''active'' s1
                  in (Normal, setStyle (body d) ''overflow'' (Str '''') s2)))"

text \<open>
  The four listeners of \<open>setupMobileNavigation\<close>. They are registered only when both
  \<open>navToggle\<close> and \<open>navMenu\<close> were found, and they close over those two elements \<open>t\<close>, \<open>m\<close>.
  \<open>contains\<close> is membership of the element in the target's path to the root.
\<close>

definition mobileNav_toggleClick :: "document \<Rightarrow> node \<Rightarrow> node \<Rightarrow> state \<Rightarrow> completion \<times> state" where
  "mobileNav_toggleClick d t m = toggleMobileMenu d (Some t) (Some m)"

definition mobileNav_linkClick :: "document \<Rightarrow> node \<Rightarrow> node \<Rightarrow> state \<Rightarrow> completion \<times> state" where
  "mobileNav_linkClick d t m = closeMobileMenu d (Some t) (Some m)"

definition mobileNav_documentClick :: "document \<Rightarrow> node \<Rightarrow> node \<Rightarrow> node \<Rightarrow> state \<Rightarrow> completion \<times> state" where
  "mobileNav_documentClick d t m target s =
     (if m \<notin> set (path d target) \<and> t \<notin> set (path d target) \<and> classList_contains m ''active'' s
      then closeMobileMenu d (Some t) (Some m) s
      else (Normal, s))"

definition mobileNav_documentKeydown :: "document \<Rightarrow> node \<Rightarrow> node \<Rightarrow> string \<Rightarrow> state \<Rightarrow> completion \<times> state" where
  "mobileNav_documentKeydown d t m key s =
     (if key = ''Escape'' \<and> classList_contains m ''active'' s
      then closeMobileMenu d (Some t) (Some m) s
      else (Normal, s))"

text \<open>The document keydown listener of \<open>setupKeyboardNavigation\<close>, registered always.\<close>

definition keyboardNav_keydown :: "document \<Rightarrow> string \<Rightarrow> state \<Rightarrow> completion \<times> state" where
  "keyboardNav_keydown d key s =
     (if key = ''Escape'' then
        (case navMenu d of
           None \<Rightarrow> (Normal, s)
         | Some mobileMenu \<Rightarrow>
             if classList_contains mobileMenu ''active'' s
             then closeMobileMenu d (navToggle d) (Some mobileMenu) s
             else (Normal, s))
      else (Normal, s))"

text \<open>
  The click listener that \<open>setupSmoothScrolling\<close> puts on every \<open>a[href^="#"]\<close>.
  \<open>document.querySelector(href)\<close> throws on a string that is no selector. The call of
  \<open>window.scrollTo\<close> is recorded in \<open>scrollRequests\<close>.
\<close>

definition smoothScroll_click :: "document \<Rightarrow> node \<Rightarrow> state \<Rightarrow> completion \<times> state" where
  "smoothScroll_click d link s =
     (let href = getAttribute link ''href'' s in
      if href = Some ''#'' then (Normal, s)
      else
        (case querySelector d (case href of None \<Rightarrow> ''null'' | Some h \<Rightarrow> h) of
           InvalidSelector \<Rightarrow> (Throw SyntaxError, s)
         | Selected None \<Rightarrow> (Normal, s)
         | Selected (Some target) \<Rightarrow>
             (case navMenu d of
                None \<Rightarrow> (Throw TypeError, s)
              | Some m \<Rightarrow>
                  let (c, s1) = (if classList_contains m ''active'' s
                                 then closeMobileMenu d (navToggle d) (Some m) s
                                 else (Normal, s))
                  in (case c of
                        Throw e \<Rightarrow> (Throw e, s1)
                      | Normal \<Rightarrow>
                          let headerHeight = (case siteHeader d of
                                                None \<Rightarrow> 0
                                              | Some h \<Rightarrow> offsetHeight (store s1 h));
                              targetPosition = offsetTop (store s1 target) - headerHeight - 20
                          in (Normal, s1\<lparr>scrollRequests := scrollRequests s1 @ [targetPosition]\<rparr>)))))"

text \<open>\<open>handleResize\<close>, run by the debounced resize timer.\<close>

definition handleResize :: "document \<Rightarrow> state \<Rightarrow> completion \<times> state" where
  "handleResize d s =
     (if innerWidth s > 768 \<and> navMenu d \<noteq> None
      then closeMobileMenu d (navToggle d) (navMenu d) s
      else (Normal, s))"

text \<open>
  Dispatch of a click (browser behaviour): the listeners of each element on the path from
  the target to the root run in registration order, then those of the document. The
  toggle's listener calls \<open>stopPropagation\<close>, which ends the walk after the listeners of
  that element.
\<close>

fun click_path :: "document \<Rightarrow> node list \<Rightarrow> state \<Rightarrow> bool \<times> state" where
  "click_path d [] s = (False, s)"
| "click_path d (x # xs) s =
     (case (navToggle d, navMenu d) of
        (Some t, Some m) \<Rightarrow>
          let s1 = (if x = t then run (mobileNav_toggleClick d t m) s else s);
              s2 = (if x \<in> set (navLinks d) then run (mobileNav_linkClick d t m) s1 else s1);
              s3 = (if x \<in> set (anchorLinks d) then run (smoothScroll_click d x) s2 else s2)
          in if x = t then (True, s3) else click_path d xs s3
      | _ \<Rightarrow>
          click_path d xs
            (if x \<in> set (anchorLinks d) then run (smoothScroll_click d x) s else s))"

definition dispatch_click :: "document \<Rightarrow> node \<Rightarrow> state \<Rightarrow> state" where
  "dispatch_click d target s =
     (let (stopped, s1) = click_path d (path d target) s in
      if stopped then s1
      else (case (navToggle d, navMenu d) of
              (Some t, Some m) \<Rightarrow> run (mobileNav_documentClick d t m target) s1
            | _ \<Rightarrow> s1))"

text \<open>
  Dispatch of a keydown: the listener that \<open>setupFocusManagement\<close> puts on the toggle
  (\<open>navToggle.click()\<close> on Enter or Space), then the two document listeners, the one of
  \<open>setupMobileNavigation\<close> before the one of \<open>setupKeyboardNavigation\<close>.
\<close>

definition focus_toggleKeydown :: "document \<Rightarrow> node \<Rightarrow> string \<Rightarrow> state \<Rightarrow> state" where
  "focus_toggleKeydown d t key s =
     (if key = ''Enter'' \<or> key = '' '' then dispatch_click d t s else s)"

definition dispatch_keydown :: "document \<Rightarrow> string \<Rightarrow> node \<Rightarrow> state \<Rightarrow> state" where
  "dispatch_keydown d key target s =
     (case (navToggle d, navMenu d) of
        (Some t, Some m) \<Rightarrow>
          let s1 = (if t \<in> set (path d target) then focus_toggleKeydown d t key s else s);
              s2 = run (mobileNav_documentKeydown d t m key) s1
          in run (keyboardNav_keydown d key) s2
      | _ \<Rightarrow> run (keyboardNav_keydown d key) s)"

subsection \<open>Header scroll effect\<close>

text \<open>
  \<open>requestAnimationFrame\<close> increments the callback identifier of the window and returns
  it, so a handle is never 0; \<open>cancelAnimationFrame\<close> removes the entry of the handle.
\<close>

definition requestAnimationFrame :: "callback \<Rightarrow> state \<Rightarrow> nat \<times> state" where
  "requestAnimationFrame cb s =
     (let h = frameCallbackId s + 1
      in (h, s\<lparr>frameCallbackId := h, frameCallbacks := frameCallbacks s @ [(h, cb)]\<rparr>))"

definition cancelAnimationFrame :: "nat \<Rightarrow> state \<Rightarrow> state" where
  "cancelAnimationFrame h s = s\<lparr>frameCallbacks := filter (\<lambda>(k, cb). k \<noteq> h) (frameCallbacks s)\<rparr>"

definition updateHeader :: "node \<Rightarrow> state \<Rightarrow> state" where
  "updateHeader header s =
     (let s1 = (if scrollY s > 100 then classList_add header ''scrolled'' s
                else classList_remove header ''scrolled'' s);
          s2 = (if scrollY s1 > lastScrollY s1 \<and> scrollY s1 > 100
                then setStyle header ''transform'' (Str ''translateY(-100%)'') s1
                else setStyle header ''transform'' (Str ''translateY(0)'') s1)
      in s2\<lparr>lastScrollY := scrollY s2, ticking := False\<rparr>)"

definition onScroll :: "node \<Rightarrow> state \<Rightarrow> state" where
  "onScroll header s =
     (if \<not> ticking s
      then (snd (requestAnimationFrame (UpdateHeader header) s))\<lparr>ticking := True\<rparr>
      else s)"

definition setupHeaderScroll :: "document \<Rightarrow> state \<Rightarrow> state" where
  "setupHeaderScroll d s =
     (case siteHeader d of
        None \<Rightarrow> s
      | Some header \<Rightarrow> s\<lparr>lastScrollY := scrollY s, ticking := False\<rparr>)"

subsection \<open>Parallax\<close>

definition scaled :: "num \<Rightarrow> rat \<Rightarrow> num" where
  "scaled x speed = map_option (\<lambda>v. v * speed) x"

definition updateParallax :: "document \<Rightarrow> state \<Rightarrow> state" where
  "updateParallax d s =
     (let s1 = fold (\<lambda>(index, orb) s'.
                  let speed = (of_nat index + 1) * (1 / 2)
                  in setStyle orb ''transform''
                       (TranslatePx (scaled (mouseX s') speed) (scaled (mouseY s') speed)) s')
                (enumerate 0 (floatingOrbs d)) s;
          s2 = fold (\<lambda>(index, cube) s'.
                  let speed = (of_nat index + 1) * 2
                  in setStyle cube ''transform''
                       (RotateXYDeg (scaled (mouseY s') speed) (scaled (mouseX s') speed)) s')
                (enumerate 0 (floatingCubes d)) s1;
          (h, s3) = requestAnimationFrame UpdateParallax s2
      in s3\<lparr>rafId := Some h\<rparr>)"

text \<open>
  \<open>handleMouseMove\<close>: the event gives \<open>clientX\<close>, \<open>clientY\<close>, and \<open>getBoundingClientRect\<close>
  of the hero gives \<open>left\<close>, \<open>top\<close>, \<open>width\<close>, \<open>height\<close>. Division by 0 is non-finite.
\<close>

definition normalized :: "rat \<Rightarrow> rat \<Rightarrow> rat \<Rightarrow> num" where
  "normalized client origin extent =
     (if extent = 0 then None else Some (((client - origin) / extent - 1 / 2) * 2))"

definition handleMouseMove :: "rat \<Rightarrow> rat \<Rightarrow> rat \<Rightarrow> rat \<Rightarrow> rat \<Rightarrow> rat \<Rightarrow> state \<Rightarrow> state" where
  "handleMouseMove clientX clientY rectLeft rectTop rectWidth rectHeight s =
     s\<lparr>mouseX := normalized clientX rectLeft rectWidth,
       mouseY := normalized clientY rectTop rectHeight\<rparr>"

text \<open>The truth value of \<open>rafId\<close> in a condition: \<open>null\<close> and 0 are false.\<close>

definition truthy :: "nat option \<Rightarrow> bool" where
  "truthy r = (case r of None \<Rightarrow> False | Some h \<Rightarrow> h \<noteq> 0)"

definition parallax_mouseenter :: "state \<Rightarrow> state" where
  "parallax_mouseenter s =
     (if \<not> truthy (rafId s)
      then (let (h, s1) = requestAnimationFrame UpdateParallax s in s1\<lparr>rafId := Some h\<rparr>)
      else s)"

definition parallax_mouseleave :: "document \<Rightarrow> state \<Rightarrow> state" where
  "parallax_mouseleave d s =
     (let s1 = (case rafId s of
                  None \<Rightarrow> s
                | Some h \<Rightarrow> if h \<noteq> 0 then (cancelAnimationFrame h s)\<lparr>rafId := None\<rparr> else s);
          s2 = fold (\<lambda>orb. setStyle orb ''transform'' (Str '''')) (floatingOrbs d) s1
      in fold (\<lambda>cube. setStyle cube ''transform'' (Str '''')) (floatingCubes d) s2)"

definition setupParallaxEffect :: "document \<Rightarrow> state \<Rightarrow> state" where
  "setupParallaxEffect d s =
     (case hero d of
        None \<Rightarrow> s
      | Some h \<Rightarrow> s\<lparr>mouseX := Some 0, mouseY := Some 0, rafId := None\<rparr>)"

text \<open>
  One animation frame (browser behaviour): the callbacks pending when the frame starts run
  in order, each removed from the list before it is invoked; a callback requested during
  the frame waits for the next one.
\<close>

definition invoke :: "document \<Rightarrow> callback \<Rightarrow> state \<Rightarrow> state" where
  "invoke d cb s = (case cb of UpdateHeader header \<Rightarrow> updateHeader header s
                             | UpdateParallax \<Rightarrow> updateParallax d s)"

fun runCallbacks :: "document \<Rightarrow> nat list \<Rightarrow> state \<Rightarrow> state" where
  "runCallbacks d [] s = s"
| "runCallbacks d (h # hs) s =
     (case map_of (frameCallbacks s) h of
        None \<Rightarrow> runCallbacks d hs s
      | Some cb \<Rightarrow> runCallbacks d hs (invoke d cb (cancelAnimationFrame h s)))"

definition animationFrame :: "document \<Rightarrow> state \<Rightarrow> state" where
  "animationFrame d s = runCallbacks d (map fst (frameCallbacks s)) s"

subsection \<open>Reveal on scroll\<close>

text \<open>
  The observer of \<open>setupScrollAnimations\<close>, created with threshold 0.1 and root margin
  \<open>0px 0px -50px 0px\<close>. \<open>observed\<close> is the list of its targets. An entry of a batch is
  the target and \<open>isIntersecting\<close>, which the browser computes from those options.
\<close>

definition observe :: "node \<Rightarrow> state \<Rightarrow> state" where
  "observe n s = (if n \<in> set (observed s) then s else s\<lparr>observed := observed s @ [n]\<rparr>)"

definition unobserve :: "node \<Rightarrow> state \<Rightarrow> state" where
  "unobserve n s = s\<lparr>observed := removeAll n (observed s)\<rparr>"

definition scrollAnimations_entry :: "node \<times> bool \<Rightarrow> state \<Rightarrow> state" where
  "scrollAnimations_entry entry s =
     (case entry of (target, isIntersecting) \<Rightarrow>
        if isIntersecting
        then unobserve target
               (setStyle target ''transform'' (Str ''translateY(0)'')
                  (setStyle target ''opacity'' (Str ''1'') s))
        else s)"

definition scrollAnimations_callback :: "(node \<times> bool) list \<Rightarrow> state \<Rightarrow> state" where
  "scrollAnimations_callback entries s = fold scrollAnimations_entry entries s"

definition setupScrollAnimations :: "document \<Rightarrow> state \<Rightarrow> state" where
  "setupScrollAnimations d s =
     fold (\<lambda>element s'.
             observe element
               (setStyle element ''transition'' (Str ''opacity 0.6s ease, transform 0.6s ease'')
                  (setStyle element ''transform'' (Str ''translateY(30px)'')
                     (setStyle element ''opacity'' (Str ''0'') s'))))
          (animatedElements d) s"

text \<open>
  Delivery of a batch (browser behaviour): the observer is notified about its targets
  only, so entries of elements that are not observed when the batch is delivered do not
  exist.
\<close>

definition intersect :: "(node \<times> bool) list \<Rightarrow> state \<Rightarrow> state" where
  "intersect batch s =
     scrollAnimations_callback (filter (\<lambda>entry. fst entry \<in> set (observed s)) batch) s"

subsection \<open>Form handling\<close>

definition setTextContent :: "node \<Rightarrow> string \<Rightarrow> state \<Rightarrow> state" where
  "setTextContent n v = update n (\<lambda>e. e\<lparr>textContent := v\<rparr>)"

definition showFieldError :: "document \<Rightarrow> node \<Rightarrow> string \<Rightarrow> state \<Rightarrow> state" where
  "showFieldError d field message s =
     (let s1 = (case errorMessage d field of
                  None \<Rightarrow> s
                | Some errorElement \<Rightarrow>
                    setStyle errorElement ''opacity'' (Str ''1'')
                      (setTextContent errorElement message s))
      in setAttribute field ''aria-invalid'' ''true'' s1)"

definition clearFieldError :: "document \<Rightarrow> node \<Rightarrow> state \<Rightarrow> state" where
  "clearFieldError d field s =
     (let s1 = (case errorMessage d field of
                  None \<Rightarrow> s
                | Some errorElement \<Rightarrow> setStyle errorElement ''opacity'' (Str ''0'') s)
      in setAttribute field ''aria-invalid'' ''false'' s1)"

text \<open>
  \<open>field.validity\<close> is computed by the browser from the constraints of the control and
  its current value: \<open>constraints\<close> of the element, applied to \<open>fieldValue\<close>.
\<close>

definition fieldValidity :: "node \<Rightarrow> state \<Rightarrow> validity" where
  "fieldValidity field s = constraints (store s field) (fieldValue (store s field))"

definition validateField :: "document \<Rightarrow> node \<Rightarrow> state \<Rightarrow> bool \<times> state" where
  "validateField d field s =
     (if \<not> valid (fieldValidity field s) then
        let message =
              (if valueMissing (fieldValidity field s) then ''This field is required''
               else if typeMismatch (fieldValidity field s) then
                 (if fieldType (store s field) = ''email''
                  then ''Please enter a valid email address'' else '''')
               else '''')
        in (False, showFieldError d field message s)
      else (True, clearFieldError d field s))"

definition setFormLoading :: "node option \<Rightarrow> bool \<Rightarrow> state \<Rightarrow> completion \<times> state" where
  "setFormLoading button loading s =
     (case button of
        None \<Rightarrow> (Throw TypeError, s)
      | Some b \<Rightarrow>
          if loading
          then (Normal, update b (\<lambda>e. e\<lparr>disabled := True\<rparr>) (classList_add b ''loading'' s))
          else (Normal, update b (\<lambda>e. e\<lparr>disabled := False\<rparr>) (classList_remove b ''loading'' s)))"

text \<open>
  \<open>showFormStatus(element, message, type)\<close>. Assigning \<open>className\<close> replaces the class
  list by the tokens of the string. \<open>statusTimers\<close> counts the pending 5-second timers.
\<close>

definition showFormStatus :: "node option \<Rightarrow> string \<Rightarrow> string \<Rightarrow> state \<Rightarrow> state" where
  "showFormStatus element message type s =
     (case element of
        None \<Rightarrow> s
      | Some e \<Rightarrow>
          let s1 = update e (\<lambda>x. x\<lparr>classList := [''form-status'', type]\<rparr>)
                     (setTextContent e message s)
          in if type = ''success'' then s1\<lparr>statusTimers := statusTimers s1 + 1\<rparr> else s1)"

definition statusTimeout :: "node \<Rightarrow> state \<Rightarrow> state" where
  "statusTimeout e s = update e (\<lambda>x. x\<lparr>classList := [''form-status'']\<rparr>) s"

text \<open>
  \<open>new FormData(form)\<close>: the name and value of each control that has a name and is not
  disabled. \<open>controls\<close> lists the text-valued controls of the form. \<open>form.reset()\<close> gives
  each of them its default value back.
\<close>

definition formData :: "form \<Rightarrow> state \<Rightarrow> (string \<times> string) list" where
  "formData f s =
     map (\<lambda>n. (fieldName (store s n), fieldValue (store s n)))
       (filter (\<lambda>n. fieldName (store s n) \<noteq> '''' \<and> \<not> disabled (store s n)) (controls f))"

definition reset :: "form \<Rightarrow> state \<Rightarrow> state" where
  "reset f s = fold (\<lambda>n. update n (\<lambda>e. e\<lparr>fieldValue := defaultValue e\<rparr>)) (controls f) s"

text \<open>The \<open>forEach\<close> of \<open>handleFormSubmission\<close>: every field is validated, none is skipped.\<close>

fun validateAll :: "document \<Rightarrow> node list \<Rightarrow> bool \<Rightarrow> state \<Rightarrow> bool \<times> state" where
  "validateAll d [] isValid s = (isValid, s)"
| "validateAll d (field # rest) isValid s =
     (let (fieldOk, s1) = validateField d field s
      in validateAll d rest (if \<not> fieldOk then False else isValid) s1)"

text \<open>
  \<open>handleFormSubmission\<close> is an async function. \<open>handleFormSubmission_start\<close> is its
  body up to the \<open>await\<close>: the call of \<open>fetch\<close> appends the request to \<open>requests\<close> and
  leaves one more fetch pending. \<open>handleFormSubmission_resume\<close> is the rest of the body,
  run when the fetch settles: with a response of some status, or with a rejection.
\<close>

datatype settled = Response nat | Rejected

datatype progress = Returned completion | Awaiting

definition ok :: "nat \<Rightarrow> bool" where
  "ok status = (200 \<le> status \<and> status \<le> 299)"

definition handleFormSubmission_start :: "document \<Rightarrow> form \<Rightarrow> state \<Rightarrow> progress \<times> state" where
  "handleFormSubmission_start d f s =
     (let (isValid, s1) = validateAll d (requiredFields f) True s in
      if \<not> isValid
      then (Returned Normal,
            showFormStatus (formStatus d) ''Please fix the errors above'' ''error'' s1)
      else
        (case setFormLoading (btnSubmit f) True s1 of
           (Throw e, s2) \<Rightarrow> (Returned (Throw e), s2)
         | (Normal, s2) \<Rightarrow>
             (Awaiting,
              s2\<lparr>requests := requests s2 @
                    [\<lparr>url = action f, httpMethod = ''POST'', requestBody = formData f s2,
                      headers = [(''Accept'', ''application/json'')]\<rparr>],
                 pendingFetches := pendingFetches s2 + 1\<rparr>)))"

definition handleFormSubmission_resume :: "document \<Rightarrow> form \<Rightarrow> settled \<Rightarrow> state \<Rightarrow> completion \<times> state" where
  "handleFormSubmission_resume d f outcome s =
     (let failed = showFormStatus (formStatus d)
            ''Sorry, there was an error sending your message. Please try again or email us directly at libertyengetelo@gmail.com.''
            ''error'';
          s1 = (case outcome of
                  Response status \<Rightarrow>
                    if ok status
                    then reset f
                           (showFormStatus (formStatus d)
                              ''Thank you! Your message has been sent successfully. We will contact you shortly.''
                              ''success'' s)
                    else failed s
                | Rejected \<Rightarrow> failed s)
      in setFormLoading (btnSubmit f) False s1)"

text \<open>The whole function when nothing else happens while the fetch is pending.\<close>

definition handleFormSubmission :: "document \<Rightarrow> form \<Rightarrow> settled \<Rightarrow> state \<Rightarrow> completion \<times> state" where
  "handleFormSubmission d f outcome s =
     (case handleFormSubmission_start d f s of
        (Returned c, s1) \<Rightarrow> (c, s1)
      | (Awaiting, s1) \<Rightarrow>
          handleFormSubmission_resume d f outcome (s1\<lparr>pendingFetches := pendingFetches s1 - 1\<rparr>))"

subsection \<open>Events\<close>

text \<open>
  The events the listeners react to. \<open>Input\<close> carries the value the browser has given the
  control; \<open>MouseMove\<close> carries \<open>clientX\<close>, \<open>clientY\<close> and the bounding rectangle of the
  hero; \<open>Scroll\<close> and \<open>Resize\<close> carry the new \<open>window.scrollY\<close> and \<open>window.innerWidth\<close>.
  \<open>FetchSettled\<close>, \<open>StatusTimeout\<close> and \<open>ResizeTimeout\<close> are the completions of a pending
  fetch and of the two kinds of timer, and do nothing when none is pending.
  Not modelled: the load listener, the active-link observer, the image observer, the
  founder image and the reduced-motion setup. They write the class lists of the body and
  of nav links, image sources and custom properties of the root element, and none of
  the variables or queues of the state.
\<close>

datatype event =
    Click node
  | Keydown string node
  | Scroll int
  | AnimationFrame
  | MouseEnter
  | MouseMove rat rat rat rat rat rat
  | MouseLeave
  | Blur node
  | Input node string
  | Submit
  | FetchSettled settled
  | StatusTimeout
  | Resize int
  | ResizeTimeout
  | Intersect "(node \<times> bool) list"

text \<open>
  \<open>step\<close> runs the listeners that \<open>init\<close> has registered for the event: a listener that a
  setup method registers only when an element exists runs only when it does.
\<close>

definition step :: "document \<Rightarrow> event \<Rightarrow> state \<Rightarrow> state" where
  "step d ev s =
     (case ev of
        Click target \<Rightarrow> dispatch_click d target s
      | Keydown key target \<Rightarrow> dispatch_keydown d key target s
      | Scroll y \<Rightarrow>
          (case siteHeader d of
             None \<Rightarrow> s\<lparr>scrollY := y\<rparr>
           | Some header \<Rightarrow> onScroll header (s\<lparr>scrollY := y\<rparr>))
      | AnimationFrame \<Rightarrow> animationFrame d s
      | MouseEnter \<Rightarrow> (case hero d of None \<Rightarrow> s | Some h \<Rightarrow> parallax_mouseenter s)
      | MouseMove clientX clientY rectLeft rectTop rectWidth rectHeight \<Rightarrow>
          (case hero d of
             None \<Rightarrow> s
           | Some h \<Rightarrow> handleMouseMove clientX clientY rectLeft rectTop rectWidth rectHeight s)
      | MouseLeave \<Rightarrow> (case hero d of None \<Rightarrow> s | Some h \<Rightarrow> parallax_mouseleave d s)
      | Blur field \<Rightarrow>
          (case contactForm d of
             None \<Rightarrow> s
           | Some f \<Rightarrow> if field \<in> set (requiredFields f) then snd (validateField d field s) else s)
      | Input field v \<Rightarrow>
          (let s1 = update field (\<lambda>e. e\<lparr>fieldValue := v\<rparr>) s in
           case contactForm d of
             None \<Rightarrow> s1
           | Some f \<Rightarrow> if field \<in> set (requiredFields f) then clearFieldError d field s1 else s1)
      | Submit \<Rightarrow>
          (case contactForm d of
             None \<Rightarrow> s
           | Some f \<Rightarrow>
               run (\<lambda>s'. case handleFormSubmission_start d f s' of
                           (Returned c, s1) \<Rightarrow> (c, s1)
                         | (Awaiting, s1) \<Rightarrow> (Normal, s1)) s)
      | FetchSettled outcome \<Rightarrow>
          (case contactForm d of
             None \<Rightarrow> s
           | Some f \<Rightarrow>
               if pendingFetches s = 0 then s
               else run (handleFormSubmission_resume d f outcome)
                      (s\<lparr>pendingFetches := pendingFetches s - 1\<rparr>))
      | StatusTimeout \<Rightarrow>
          (case formStatus d of
             None \<Rightarrow> s
           | Some e \<Rightarrow>
               if statusTimers s = 0 then s
               else statusTimeout e (s\<lparr>statusTimers := statusTimers s - 1\<rparr>))
      | Resize w \<Rightarrow> s\<lparr>innerWidth := w, resizeTimeout := True\<rparr>
      | ResizeTimeout \<Rightarrow>
          if resizeTimeout s then run (handleResize d) (s\<lparr>resizeTimeout := False\<rparr>) else s
      | Intersect batch \<Rightarrow> intersect batch s)"

definition steps :: "document \<Rightarrow> event list \<Rightarrow> state \<Rightarrow> state" where
  "steps d evs s = fold (step d) evs s"

text \<open>
  The state when the controller has been constructed on a freshly loaded page: the store
  of the parsed document, nothing pending, and the effects of the setup methods on the
  variables their listeners close over and on the reveal elements.
\<close>

definition loaded :: "(node \<Rightarrow> element) \<Rightarrow> int \<Rightarrow> int \<Rightarrow> state" where
  "loaded st y w =
     \<lparr>store = st, uncaught = [], scrollY = y, lastScrollY = 0, ticking = False,
      frameCallbacks = [], frameCallbackId = 0, scrollRequests = [],
      mouseX = Some 0, mouseY = Some 0, rafId = None, observed = [], requests = [],
      pendingFetches = 0, statusTimers = 0, innerWidth = w, resizeTimeout = False\<rparr>"

definition init :: "document \<Rightarrow> state \<Rightarrow> state" where
  "init d s = setupScrollAnimations d (setupParallaxEffect d (setupHeaderScroll d s))"

subsection \<open>Properties\<close>

text \<open>The closed state of the mobile menu, as the three dismissal paths leave it.\<close>

definition menuClosed :: "document \<Rightarrow> node \<Rightarrow> node \<Rightarrow> state \<Rightarrow> bool" where
  "menuClosed d t m s =
     (getAttribute t ''aria-expanded'' s = Some ''false'' \<and>
      \<not> classList_contains m ''active'' s \<and>
      getStyle (body d) ''overflow'' s = Str '''')"


text \<open>
  What a dismissal while the menu is closed would leave untouched: the toggle's
  \<open>aria-expanded\<close>, the class list of the menu and the body's \<open>overflow\<close>.
\<close>

definition navUntouched :: "document \<Rightarrow> node \<Rightarrow> node \<Rightarrow> state \<Rightarrow> state \<Rightarrow> bool" where
  "navUntouched d t m s s' =
     (getAttribute t ''aria-expanded'' s' = getAttribute t ''aria-expanded'' s \<and>
      classList (store s' m) = classList (store s m) \<and>
      getStyle (body d) ''overflow'' s' = getStyle (body d) ''overflow'' s)"

text \<open>
  The status region shows a message of a type: it exists, its text is the message and its
  class is \<open>form-status\<close> followed by the type.
\<close>

definition statusShown :: "document \<Rightarrow> string \<Rightarrow> string \<Rightarrow> state \<Rightarrow> bool" where
  "statusShown d message type s =
     (case formStatus d of
        None \<Rightarrow> False
      | Some e \<Rightarrow> textContent (store s e) = message \<and>
                  classList (store s e) = [''form-status'', type])"

text \<open>Every required field of the form passes the browser's validation.\<close>

definition allValid :: "form \<Rightarrow> state \<Rightarrow> bool" where
  "allValid f s = list_all (\<lambda>field. valid (fieldValidity field s)) (requiredFields f)"

text \<open>The one request of a submission, with the form data taken in the given state.\<close>

definition postRequest :: "form \<Rightarrow> state \<Rightarrow> request" where
  "postRequest f s =
     \<lparr>url = action f, httpMethod = ''POST'', requestBody = formData f s,
      headers = [(''Accept'', ''application/json'')]\<rparr>"

definition fixErrors :: string where
  "fixErrors = ''Please fix the errors above''"

definition thankYou :: string where
  "thankYou = ''Thank you! Your message has been sent successfully. We will contact you shortly.''"

definition sorryRetry :: string where
  "sorryRetry = ''Sorry, there was an error sending your message. Please try again or email us directly at libertyengetelo@gmail.com.''"

subsection \<open>Example pages\<close>

text \<open>
  A page with the body 0, the toggle 1, the menu 2, a nav link 3 inside the menu that
  points to the section 4 (\<open>#about\<close>), and an unrelated element 5.
\<close>

definition blank :: element where
  "blank =
     \<lparr>attributes = (\<lambda>a. None), classList = [], style = (\<lambda>p. Str ''''), textContent = '''',
      disabled = False, fieldValue = '''', defaultValue = '''', fieldName = '''',
      fieldType = '''',
      constraints = (\<lambda>v. \<lparr>valid = True, valueMissing = False, typeMismatch = False\<rparr>),
      offsetTop = 0, offsetHeight = 0\<rparr>"

definition navPage :: document where
  "navPage =
     \<lparr>body = 0, navToggle = Some 1, navMenu = Some 2, navLinks = [3], siteHeader = None,
      anchorLinks = [3],
      querySelector = (\<lambda>sel. if sel = ''#about'' then Selected (Some 4) else Selected None),
      contactForm = None, formStatus = None, errorMessage = (\<lambda>n. None), hero = None,
      floatingOrbs = [], floatingCubes = [], animatedElements = [],
      path = (\<lambda>n. if n = 0 then [0] else if n = 3 then [3, 2, 0] else [n, 0])\<rparr>"

definition navStore :: "node \<Rightarrow> element" where
  "navStore =
     (\<lambda>n. blank)
       (3 := blank\<lparr>attributes := [''href'' \<mapsto> ''#about''], classList := [''nav-link'']\<rparr>,
        4 := blank\<lparr>offsetTop := 900\<rparr>)"

text \<open>The page as parsed, with no \<open>aria-expanded\<close> on the toggle and the menu closed.\<close>

definition navClosed :: state where
  "navClosed = loaded navStore 0 400"

text \<open>The same page after a click on the toggle.\<close>

definition navOpen :: state where
  "navOpen = step navPage (Click 1) navClosed"

text \<open>The page without the toggle and the menu.\<close>

definition bareNavPage :: document where
  "bareNavPage = navPage\<lparr>navToggle := None, navMenu := None, navLinks := []\<rparr>"

text \<open>
  A page with a contact form: the required fields 10 (text) and 11 (email) with the error
  elements 20 and 21, the submit button 12 and the status region 14. In this example the
  browser takes an address for well-formed when it contains an \<open>@\<close>.
\<close>

definition contact :: form where
  "contact =
     \<lparr>action = ''https://formspree.io/f/contact'', requiredFields = [10, 11],
      btnSubmit = Some 12, controls = [10, 11]\<rparr>"

definition formPage :: document where
  "formPage =
     \<lparr>body = 0, navToggle = None, navMenu = None, navLinks = [], siteHeader = None,
      anchorLinks = [], querySelector = (\<lambda>sel. Selected None),
      contactForm = Some contact, formStatus = Some 14,
      errorMessage = (\<lambda>n. if n = 10 then Some 20 else if n = 11 then Some 21 else None),
      hero = None, floatingOrbs = [], floatingCubes = [], animatedElements = [],
      path = (\<lambda>n. if n = 0 then [0] else [n, 0])\<rparr>"

definition formStore :: "string \<Rightarrow> string \<Rightarrow> node \<Rightarrow> element" where
  "formStore name email =
     (\<lambda>n. blank)
       (10 := blank\<lparr>fieldName := ''name'', fieldType := ''text'', fieldValue := name,
                   constraints := (\<lambda>v. \<lparr>valid = (v \<noteq> []), valueMissing = (v = []),
                                        typeMismatch = False\<rparr>)\<rparr>,
        11 := blank\<lparr>fieldName := ''email'', fieldType := ''email'', fieldValue := email,
                   constraints := (\<lambda>v. \<lparr>valid = (v \<noteq> [] \<and> CHR ''@'' \<in> set v),
                                        valueMissing = (v = []),
                                        typeMismatch = (v \<noteq> [] \<and> CHR ''@'' \<notin> set v)\<rparr>)\<rparr>,
        12 := blank\<lparr>classList := [''btn-submit'']\<rparr>,
        14 := blank\<lparr>classList := [''form-status'']\<rparr>)"

definition formEmpty :: state where
  "formEmpty = loaded (formStore [] []) 0 400"

definition formFilled :: state where
  "formFilled = loaded (formStore ''Ann'' ''ann@example.org'') 0 400"

text \<open>The same page without the status region, and the same form without its button.\<close>

definition formPageNoStatus :: document where
  "formPageNoStatus = formPage\<lparr>formStatus := None\<rparr>"

definition formPageNoButton :: document where
  "formPageNoButton = formPage\<lparr>contactForm := Some (contact\<lparr>btnSubmit := None\<rparr>)\<rparr>"

text \<open>
  Two states agree on what a submission encodes and on the network: the name, value,
  default value, constraints and disabled flag of every element, the requests made, the
  pending fetches and the uncaught exceptions.
\<close>

definition sameControls :: "state \<Rightarrow> state \<Rightarrow> bool" where
  "sameControls s s' =
     ((\<forall>n. fieldValue (store s' n) = fieldValue (store s n) \<and>
           fieldName (store s' n) = fieldName (store s n) \<and>
           defaultValue (store s' n) = defaultValue (store s n) \<and>
           constraints (store s' n) = constraints (store s n) \<and>
           fieldType (store s' n) = fieldType (store s n) \<and>
           disabled (store s' n) = disabled (store s n)) \<and>
      requests s' = requests s \<and> pendingFetches s' = pendingFetches s \<and>
      uncaught s' = uncaught s)"

subsection \<open>Scheduling properties\<close>

text \<open>
  The header update callbacks and the parallax callbacks among the pending animation
  frame callbacks.
\<close>

definition isHeader :: "nat \<times> callback \<Rightarrow> bool" where
  "isHeader entry = (case snd entry of UpdateHeader header \<Rightarrow> True | UpdateParallax \<Rightarrow> False)"

definition isParallax :: "nat \<times> callback \<Rightarrow> bool" where
  "isParallax entry = (case snd entry of UpdateHeader header \<Rightarrow> False | UpdateParallax \<Rightarrow> True)"

definition headerPending :: "state \<Rightarrow> nat" where
  "headerPending s = length (filter isHeader (frameCallbacks s))"

definition parallaxPending :: "state \<Rightarrow> (nat \<times> callback) list" where
  "parallaxPending s = filter isParallax (frameCallbacks s)"

text \<open>The part of the state that scheduling reads and writes.\<close>

definition sched :: "state \<Rightarrow> bool \<times> (nat \<times> callback) list \<times> nat \<times> nat option" where
  "sched s = (ticking s, frameCallbacks s, frameCallbackId s, rafId s)"

text \<open>
  The invariant of scheduling: pending handles are distinct, positive and at most the
  last identifier given out; one header update is pending exactly when \<open>ticking\<close> is set;
  the pending parallax callback is exactly the one whose handle \<open>rafId\<close> holds.
\<close>

definition schedInv :: "state \<Rightarrow> bool" where
  "schedInv s =
     (distinct (map fst (frameCallbacks s)) \<and>
      list_all (\<lambda>entry. 0 < fst entry \<and> fst entry \<le> frameCallbackId s) (frameCallbacks s) \<and>
      headerPending s = (if ticking s then 1 else 0) \<and>
      parallaxPending s = (case rafId s of None \<Rightarrow> [] | Some h \<Rightarrow> [(h, UpdateParallax)]) \<and>
      rafId s \<noteq> Some 0)"

text \<open>
  A page with the header 6, the hero region 7 with one orb 8 and one cube 9, and two
  reveal-on-scroll elements 30 and 31; the state after the construction of the controller.
\<close>

definition heroPage :: document where
  "heroPage =
     \<lparr>body = 0, navToggle = None, navMenu = None, navLinks = [], siteHeader = Some 6,
      anchorLinks = [], querySelector = (\<lambda>sel. Selected None),
      contactForm = None, formStatus = None, errorMessage = (\<lambda>n. None), hero = Some 7,
      floatingOrbs = [8], floatingCubes = [9], animatedElements = [30, 31],
      path = (\<lambda>n. if n = 0 then [0] else [n, 0])\<rparr>"

definition heroStart :: state where
  "heroStart = init heroPage (loaded (\<lambda>n. blank) 0 1200)"

text \<open>
  The callbacks that \<open>runCallbacks\<close> invokes, in order, and the number of header updates
  among those of the animation frame that starts in a state.
\<close>

fun invoked :: "document \<Rightarrow> nat list \<Rightarrow> state \<Rightarrow> callback list" where
  "invoked d [] s = []"
| "invoked d (h # hs) s =
     (case map_of (frameCallbacks s) h of
        None \<Rightarrow> invoked d hs s
      | Some cb \<Rightarrow> cb # invoked d hs (invoke d cb (cancelAnimationFrame h s)))"

definition headerUpdates :: "document \<Rightarrow> state \<Rightarrow> nat" where
  "headerUpdates d s =
     length (filter (\<lambda>cb. isHeader (0, cb)) (invoked d (map fst (frameCallbacks s)) s))"

text \<open>A reveal element is shown: it has the opacity and the position of the reveal.\<close>

definition revealed :: "node \<Rightarrow> state \<Rightarrow> bool" where
  "revealed n s =
     (getStyle n ''opacity'' s = Str ''1'' \<and>
      getStyle n ''transform'' s = Str ''translateY(0)'')"

section \<open>Proofs\<close>

subsection \<open>Reading the store after a write\<close>

lemma store_update [simp]:
  "store (update n f s) k = (if k = n then f (store s n) else store s k)"
  by (simp add: update_def)

lemma getAttribute_setAttribute [simp]:
  "getAttribute n a (setAttribute k b v s) = (if n = k \<and> a = b then Some v else getAttribute n a s)"
  by (simp add: getAttribute_def setAttribute_def)

lemma getAttribute_classList_remove [simp]:
  "getAttribute n a (classList_remove k c s) = getAttribute n a s"
  by (simp add: getAttribute_def classList_remove_def)

lemma getAttribute_classList_add [simp]:
  "getAttribute n a (classList_add k c s) = getAttribute n a s"
  by (simp add: getAttribute_def classList_add_def)

lemma getAttribute_setStyle [simp]:
  "getAttribute n a (setStyle k p v s) = getAttribute n a s"
  by (simp add: getAttribute_def setStyle_def)

lemma contains_setAttribute [simp]:
  "classList_contains n c (setAttribute k b v s) = classList_contains n c s"
  by (simp add: classList_contains_def setAttribute_def)

lemma contains_setStyle [simp]:
  "classList_contains n c (setStyle k p v s) = classList_contains n c s"
  by (simp add: classList_contains_def setStyle_def)

lemma contains_remove [simp]:
  "classList_contains n c (classList_remove k c' s) =
     (if n = k \<and> c = c' then False else classList_contains n c s)"
  by (simp add: classList_contains_def classList_remove_def)

lemma contains_add [simp]:
  "classList_contains n c (classList_add k c' s) =
     (if n = k \<and> c = c' then True else classList_contains n c s)"
  by (auto simp add: classList_contains_def classList_add_def)

lemma getStyle_setStyle [simp]:
  "getStyle n p (setStyle k q v s) = (if n = k \<and> p = q then v else getStyle n p s)"
  by (simp add: getStyle_def setStyle_def)

lemma getStyle_setAttribute [simp]:
  "getStyle n p (setAttribute k b v s) = getStyle n p s"
  by (simp add: getStyle_def setAttribute_def)

lemma getStyle_classList_remove [simp]:
  "getStyle n p (classList_remove k c s) = getStyle n p s"
  by (simp add: getStyle_def classList_remove_def)

lemma getStyle_classList_add [simp]:
  "getStyle n p (classList_add k c s) = getStyle n p s"
  by (simp add: getStyle_def classList_add_def)

subsection \<open>Mobile navigation\<close>

lemma closeMobileMenu_closed:
  "closeMobileMenu d (Some t) (Some m) s = (c, s') \<Longrightarrow> c = Normal \<and> menuClosed d t m s'"
  by (auto simp: closeMobileMenu_def menuClosed_def Let_def)

text \<open>Two updates of different properties commute, also on one element.\<close>

lemma update_update_same: "update n f (update n g s) = update n (f \<circ> g) s"
  by (simp add: update_def)

lemma update_commute:
  "(\<And>e. f (g e) = g (f e)) \<Longrightarrow> update n f (update k g s) = update k g (update n f s)"
  by (cases "n = k") (auto simp: update_def fun_upd_twist)

lemma close_idem:
  "closeMobileMenu d (Some t) (Some m) (snd (closeMobileMenu d (Some t) (Some m) s)) = closeMobileMenu d (Some t) (Some m) s"
proof -
  let ?A = "\<lambda>e::element. e\<lparr>attributes := (attributes e)(''aria-expanded'' \<mapsto> ''false'')\<rparr>"
  let ?R = "\<lambda>e::element. e\<lparr>classList := removeAll ''active'' (classList e)\<rparr>"
  let ?S = "\<lambda>e::element. e\<lparr>style := (style e)(''overflow'' := Str '''')\<rparr>"
  have AR: "update t ?A (update k ?R s') = update k ?R (update t ?A s')" for k s'
    by (rule update_commute) simp
  have AS: "update t ?A (update k ?S s') = update k ?S (update t ?A s')" for k s'
    by (rule update_commute) simp
  have RS: "update m ?R (update k ?S s') = update k ?S (update m ?R s')" for k s'
    by (rule update_commute) simp
  have AA: "update t ?A (update t ?A s') = update t ?A s'" for s'
    by (simp add: update_update_same comp_def)
  have RR: "update m ?R (update m ?R s') = update m ?R s'" for s'
    by (simp add: update_update_same comp_def)
  have SS: "update k ?S (update k ?S s') = update k ?S s'" for k s'
    by (simp add: update_update_same comp_def)
  show ?thesis
    by (simp add: closeMobileMenu_def Let_def setAttribute_def classList_remove_def setStyle_def
        AR AS RS AA RR SS)
qed

lemma menuClosed_store: "store s' = store s \<Longrightarrow> menuClosed d t m s' = menuClosed d t m s"
  by (simp add: menuClosed_def getAttribute_def classList_contains_def getStyle_def)

lemma menuClosed_scrollRequests [simp]:
  "menuClosed d t m (s\<lparr>scrollRequests := r\<rparr>) = menuClosed d t m s"
  by (rule menuClosed_store) simp

lemma menuClosed_uncaught [simp]:
  "menuClosed d t m (s\<lparr>uncaught := e\<rparr>) = menuClosed d t m s"
  by (rule menuClosed_store) simp

lemma store_run_Normal: "h s = (Normal, s') \<Longrightarrow> run h s = s'"
  by (simp add: run_def)

lemma run_close:
  "menuClosed d t m (run (closeMobileMenu d (Some t) (Some m)) s)"
proof -
  obtain c s' where h: "closeMobileMenu d (Some t) (Some m) s = (c, s')"
    by (cases "closeMobileMenu d (Some t) (Some m) s")
  from closeMobileMenu_closed [OF h] h show ?thesis
    by (simp add: run_def)
qed

lemma run_linkClick: "menuClosed d t m (run (mobileNav_linkClick d t m) s)"
  by (simp add: mobileNav_linkClick_def run_close)

lemma closeMobileMenu_Some:
  "closeMobileMenu d (Some t) (Some m) s =
     (Normal, setStyle (body d) ''overflow'' (Str [])
                (classList_remove m ''active'' (setAttribute t ''aria-expanded'' ''false'' s)))"
  by (simp add: closeMobileMenu_def Let_def)

lemma run_smoothScroll:
  assumes "navToggle d = Some t" "navMenu d = Some m"
  shows "store (run (smoothScroll_click d x) s) = store s \<or>
         menuClosed d t m (run (smoothScroll_click d x) s)"
proof -
  have cl: "menuClosed d t m (setStyle (body d) ''overflow'' (Str [])
                (classList_remove m ''active'' (setAttribute t ''aria-expanded'' ''false'' s)))"
    using closeMobileMenu_closed [of d t m s] by (simp add: closeMobileMenu_Some)
  show ?thesis
    using assms cl
    by (simp add: smoothScroll_click_def run_def Let_def closeMobileMenu_Some
        split: selected.split option.split)
qed

lemma click_path_away:
  assumes nav: "navToggle d = Some t" "navMenu d = Some m"
  shows "t \<notin> set xs \<Longrightarrow>
         fst (click_path d xs s) = False \<and>
         (store (snd (click_path d xs s)) = store s \<or> menuClosed d t m (snd (click_path d xs s)))"
proof (induction xs arbitrary: s)
  case Nil
  then show ?case by simp
next
  case (Cons x xs)
  let ?s2 = "if x \<in> set (navLinks d) then run (mobileNav_linkClick d t m) s else s"
  let ?s3 = "if x \<in> set (anchorLinks d) then run (smoothScroll_click d x) ?s2 else ?s2"
  from Cons.prems have xt: "x \<noteq> t" and txs: "t \<notin> set xs" by auto
  have eq: "click_path d (x # xs) s = click_path d xs ?s3"
    using nav xt by (simp add: Let_def)
  have s2: "store ?s2 = store s \<or> menuClosed d t m ?s2"
    by (simp add: run_linkClick)
  have s3: "store ?s3 = store ?s2 \<or> menuClosed d t m ?s3"
    using run_smoothScroll [OF nav, of x ?s2] by auto
  from s2 s3 have s3': "store ?s3 = store s \<or> menuClosed d t m ?s3"
    using menuClosed_store [of ?s3 ?s2 d t m] by auto
  from Cons.IH [OF txs, of ?s3] s3' show ?case
    unfolding eq using menuClosed_store [of "snd (click_path d xs ?s3)" ?s3 d t m] by auto
qed

lemma click_path_link:
  assumes nav: "navToggle d = Some t" "navMenu d = Some m"
  shows "t \<notin> set xs \<Longrightarrow> link \<in> set xs \<Longrightarrow> link \<in> set (navLinks d) \<Longrightarrow>
         menuClosed d t m (snd (click_path d xs s))"
proof (induction xs arbitrary: s)
  case Nil
  then show ?case by simp
next
  case (Cons x xs)
  let ?s2 = "if x \<in> set (navLinks d) then run (mobileNav_linkClick d t m) s else s"
  let ?s3 = "if x \<in> set (anchorLinks d) then run (smoothScroll_click d x) ?s2 else ?s2"
  from Cons.prems have xt: "x \<noteq> t" and txs: "t \<notin> set xs" by auto
  have eq: "click_path d (x # xs) s = click_path d xs ?s3"
    using nav xt by (simp add: Let_def)
  show ?case
  proof (cases "x = link")
    case True
    with Cons.prems have "menuClosed d t m ?s2" by (simp add: run_linkClick)
    with run_smoothScroll [OF nav, of x ?s2] have "menuClosed d t m ?s3"
      using menuClosed_store [of ?s3 ?s2 d t m] by auto
    with click_path_away [OF nav txs, of ?s3] show ?thesis
      unfolding eq using menuClosed_store [of "snd (click_path d xs ?s3)" ?s3 d t m] by auto
  next
    case False
    with Cons.prems have "link \<in> set xs" by simp
    from Cons.IH [OF txs this Cons.prems(3)] show ?thesis unfolding eq .
  qed
qed

lemma documentClick_closed:
  "menuClosed d t m s \<Longrightarrow> run (mobileNav_documentClick d t m target) s = s"
  by (simp add: mobileNav_documentClick_def menuClosed_def run_def)

lemma documentKeydown_closed:
  "\<not> classList_contains m ''active'' s \<Longrightarrow> run (mobileNav_documentKeydown d t m key) s = s"
  by (simp add: mobileNav_documentKeydown_def run_def)

lemma keyboardNav_closed:
  "navMenu d = Some m \<Longrightarrow> \<not> classList_contains m ''active'' s \<Longrightarrow>
   run (keyboardNav_keydown d key) s = s"
  by (simp add: keyboardNav_keydown_def run_def)

lemma classList_setAttribute [simp]:
  "classList (store (setAttribute k b v s) n) = classList (store s n)"
  by (simp add: setAttribute_def)

lemma classList_setStyle [simp]:
  "classList (store (setStyle k p v s) n) = classList (store s n)"
  by (simp add: setStyle_def)

lemma classList_classList_remove [simp]:
  "classList (store (classList_remove k c s) n) =
     (if n = k then removeAll c (classList (store s n)) else classList (store s n))"
  by (simp add: classList_remove_def)

lemma contains_store: "store s' = store s \<Longrightarrow> classList_contains m c s' = classList_contains m c s"
  by (simp add: classList_contains_def)

lemma run_close_eq:
  "run (closeMobileMenu d (Some t) (Some m)) s = snd (closeMobileMenu d (Some t) (Some m) s)"
  by (simp add: run_def closeMobileMenu_Some)

lemma close_classList:
  "\<not> classList_contains m ''active'' s \<Longrightarrow>
   classList (store (snd (closeMobileMenu d (Some t) (Some m) s)) m) = classList (store s m)"
  by (simp add: closeMobileMenu_Some classList_contains_def)

lemma smoothScroll_inactive:
  assumes "navMenu d = Some m" "\<not> classList_contains m ''active'' s"
  shows "store (run (smoothScroll_click d x) s) = store s"
  using assms
  by (simp add: smoothScroll_click_def run_def Let_def split: selected.split option.split)

lemma click_path_inactive_store:
  assumes nav: "navToggle d = Some t" "navMenu d = Some m"
  shows "t \<notin> set xs \<Longrightarrow> set xs \<inter> set (navLinks d) = {} \<Longrightarrow>
         \<not> classList_contains m ''active'' s \<Longrightarrow>
         store (snd (click_path d xs s)) = store s"
proof (induction xs arbitrary: s)
  case Nil
  then show ?case by simp
next
  case (Cons x xs)
  let ?s3 = "if x \<in> set (anchorLinks d) then run (smoothScroll_click d x) s else s"
  from Cons.prems have xt: "x \<noteq> t" and txs: "t \<notin> set xs"
    and xl: "x \<notin> set (navLinks d)" and ls: "set xs \<inter> set (navLinks d) = {}" by auto
  have eq: "click_path d (x # xs) s = click_path d xs ?s3"
    using nav xt xl by (simp add: Let_def)
  have st: "store ?s3 = store s"
    using smoothScroll_inactive [OF nav(2) Cons.prems(3)] by simp
  then have "\<not> classList_contains m ''active'' ?s3"
    using Cons.prems(3) contains_store [OF st] by simp
  from Cons.IH [OF txs ls this] st show ?case unfolding eq by simp
qed

lemma click_path_inactive_classList:
  assumes nav: "navToggle d = Some t" "navMenu d = Some m"
  shows "t \<notin> set xs \<Longrightarrow> \<not> classList_contains m ''active'' s \<Longrightarrow>
         classList (store (snd (click_path d xs s)) m) = classList (store s m)"
proof (induction xs arbitrary: s)
  case Nil
  then show ?case by simp
next
  case (Cons x xs)
  let ?s2 = "if x \<in> set (navLinks d) then run (mobileNav_linkClick d t m) s else s"
  let ?s3 = "if x \<in> set (anchorLinks d) then run (smoothScroll_click d x) ?s2 else ?s2"
  from Cons.prems have xt: "x \<noteq> t" and txs: "t \<notin> set xs" by auto
  have eq: "click_path d (x # xs) s = click_path d xs ?s3"
    using nav xt by (simp add: Let_def)
  have c2: "classList (store ?s2 m) = classList (store s m)"
    using Cons.prems(2) by (simp add: mobileNav_linkClick_def run_close_eq close_classList)
  then have a2: "\<not> classList_contains m ''active'' ?s2"
    using Cons.prems(2) by (simp add: classList_contains_def)
  have st: "store ?s3 = store ?s2"
    using smoothScroll_inactive [OF nav(2) a2, of x]
    by (cases "x \<in> set (anchorLinks d)") (simp_all split del: if_split)
  then have a3: "\<not> classList_contains m ''active'' ?s3"
    using a2 contains_store [OF st] by simp
  from Cons.IH [OF txs a3] st c2 show ?case unfolding eq by simp
qed

lemma escape_closed:
  assumes nav: "navToggle d = Some t" "navMenu d = Some m"
    and closed: "\<not> classList_contains m ''active'' s"
  shows "step d (Keydown ''Escape'' target) s = s"
  using nav closed
  by (simp add: step_def dispatch_keydown_def focus_toggleKeydown_def Let_def
      documentKeydown_closed keyboardNav_closed)

lemma escape_open:
  assumes nav: "navToggle d = Some t" "navMenu d = Some m"
    and active: "classList_contains m ''active'' s"
  shows "step d (Keydown ''Escape'' target) s = snd (closeMobileMenu d (Some t) (Some m) s)"
proof -
  let ?c = "snd (closeMobileMenu d (Some t) (Some m) s)"
  have k: "run (mobileNav_documentKeydown d t m ''Escape'') s = ?c"
    using active by (simp add: mobileNav_documentKeydown_def run_def closeMobileMenu_Some)
  have "\<not> classList_contains m ''active'' ?c"
    by (simp add: closeMobileMenu_Some)
  from keyboardNav_closed [OF nav(2) this] k show ?thesis
    using nav by (simp add: step_def dispatch_keydown_def focus_toggleKeydown_def Let_def)
qed


subsection \<open>Claims on the mobile navigation\<close>

text \<open>
  C3. With the toggle and the menu present, each of the three dismissal paths ends in the
  closed state: a click on a nav link (whatever the state of the menu, the click not being
  inside the toggle), a click outside both toggle and menu while the menu is open, and
  the Escape key while the menu is open. Afterwards \<open>aria-expanded\<close> of the toggle is
  "false", the menu has no \<open>active\<close> class and the body's \<open>overflow\<close> is empty. The
  statement is about the whole dispatch of the event, with every listener that runs.
\<close>

theorem dismissal_closes:
  assumes nav: "navToggle d = Some t" "navMenu d = Some m"
  shows "(link \<in> set (navLinks d) \<and> link \<in> set (path d target) \<and> t \<notin> set (path d target)
            \<longrightarrow> menuClosed d t m (step d (Click target) s)) \<and>
         (m \<notin> set (path d target) \<and> t \<notin> set (path d target) \<and> classList_contains m ''active'' s
            \<longrightarrow> menuClosed d t m (step d (Click target) s)) \<and>
         (classList_contains m ''active'' s
            \<longrightarrow> menuClosed d t m (step d (Keydown ''Escape'' target) s))"
proof (intro conjI impI)
  assume a: "link \<in> set (navLinks d) \<and> link \<in> set (path d target) \<and> t \<notin> set (path d target)"
  obtain b s1 where cp: "click_path d (path d target) s = (b, s1)"
    by (cases "click_path d (path d target) s")
  from a click_path_away [OF nav, of "path d target" s] cp have b: "b = False" by simp
  from a click_path_link [OF nav, of "path d target" link s] cp have "menuClosed d t m s1" by simp
  then show "menuClosed d t m (step d (Click target) s)"
    using nav cp b by (simp add: step_def dispatch_click_def documentClick_closed)
next
  assume a: "m \<notin> set (path d target) \<and> t \<notin> set (path d target) \<and> classList_contains m ''active'' s"
  obtain b s1 where cp: "click_path d (path d target) s = (b, s1)"
    by (cases "click_path d (path d target) s")
  from a click_path_away [OF nav, of "path d target" s] cp
  have b: "b = False" and s1: "store s1 = store s \<or> menuClosed d t m s1" by simp_all
  have "menuClosed d t m (run (mobileNav_documentClick d t m target) s1)"
  proof (cases "menuClosed d t m s1")
    case True
    then show ?thesis by (simp add: documentClick_closed)
  next
    case False
    with s1 have "store s1 = store s" by simp
    with a have "classList_contains m ''active'' s1" by (simp add: classList_contains_def)
    with a have "run (mobileNav_documentClick d t m target) s1 =
        run (closeMobileMenu d (Some t) (Some m)) s1"
      by (simp add: mobileNav_documentClick_def run_def)
    then show ?thesis by (simp add: run_close)
  qed
  then show "menuClosed d t m (step d (Click target) s)"
    using nav cp b by (simp add: step_def dispatch_click_def)
next
  assume a: "classList_contains m ''active'' s"
  have f: "(if t \<in> set (path d target) then focus_toggleKeydown d t ''Escape'' s else s) = s"
    by (simp add: focus_toggleKeydown_def)
  have "run (mobileNav_documentKeydown d t m ''Escape'') s =
        run (closeMobileMenu d (Some t) (Some m)) s"
    using a by (simp add: mobileNav_documentKeydown_def run_def)
  then have c: "menuClosed d t m (run (mobileNav_documentKeydown d t m ''Escape'') s)"
    by (simp add: run_close)
  then have "\<not> classList_contains m ''active'' (run (mobileNav_documentKeydown d t m ''Escape'') s)"
    by (simp add: menuClosed_def)
  from keyboardNav_closed [OF nav(2) this]
  have "run (keyboardNav_keydown d ''Escape'') (run (mobileNav_documentKeydown d t m ''Escape'') s)
       = run (mobileNav_documentKeydown d t m ''Escape'') s" .
  with c show "menuClosed d t m (step d (Keydown ''Escape'' target) s)"
    using nav f by (simp add: step_def dispatch_keydown_def Let_def)
qed

theorem dismissal_closes_witness:
  "navToggle navPage = Some 1 \<and> navMenu navPage = Some 2 \<and>
   (3 \<in> set (navLinks navPage) \<and> 3 \<in> set (path navPage 3) \<and> 1 \<notin> set (path navPage 3)) \<and>
   menuClosed navPage 1 2 (step navPage (Click 3) navOpen) \<and>
   (2 \<notin> set (path navPage 5) \<and> 1 \<notin> set (path navPage 5) \<and>
    classList_contains 2 ''active'' navOpen) \<and>
   menuClosed navPage 1 2 (step navPage (Click 5) navOpen) \<and>
   menuClosed navPage 1 2 (step navPage (Keydown ''Escape'' 0) navOpen)"
proof -
  have nav: "navToggle navPage = Some 1" "navMenu navPage = Some 2"
    by (simp_all add: navPage_def)
  have link: "3 \<in> set (navLinks navPage) \<and> 3 \<in> set (path navPage 3) \<and>
              1 \<notin> set (path navPage 3)"
    by (simp add: navPage_def)
  have out: "2 \<notin> set (path navPage 5) \<and> 1 \<notin> set (path navPage 5) \<and>
             classList_contains 2 ''active'' navOpen"
    by code_simp
  from dismissal_closes [OF nav, where link = 3 and target = 3 and s = navOpen]
    dismissal_closes [OF nav, where link = 3 and target = 5 and s = navOpen]
    dismissal_closes [OF nav, where link = 3 and target = 0 and s = navOpen]
    nav link out
  show ?thesis by simp
qed

text \<open>
  C9. Closing the menu is idempotent: closing twice gives exactly the state of closing
  once, which is the closed state (\<open>aria-expanded\<close> "false", no \<open>active\<close> class, empty
  body \<open>overflow\<close>). So the Escape key, which has a listener from the mobile navigation
  setup and one from the keyboard navigation setup, leaves an open menu in the state of
  one close.
\<close>

theorem closeMobileMenu_idempotent:
  "closeMobileMenu d (Some t) (Some m) (snd (closeMobileMenu d (Some t) (Some m) s)) =
     closeMobileMenu d (Some t) (Some m) s \<and>
   fst (closeMobileMenu d (Some t) (Some m) s) = Normal \<and>
   menuClosed d t m (snd (closeMobileMenu d (Some t) (Some m) s)) \<and>
   (navToggle d = Some t \<and> navMenu d = Some m \<and> classList_contains m ''active'' s \<longrightarrow>
      step d (Keydown ''Escape'' target) s = snd (closeMobileMenu d (Some t) (Some m) s))"
  using close_idem [of d t m s]
    closeMobileMenu_closed [of d t m s Normal "snd (closeMobileMenu d (Some t) (Some m) s)"]
    escape_open [of d t m s target]
  by (simp add: closeMobileMenu_Some)

theorem closeMobileMenu_idempotent_witness:
  "navToggle navPage = Some 1 \<and> navMenu navPage = Some 2 \<and>
   classList_contains 2 ''active'' navOpen \<and>
   step navPage (Keydown ''Escape'' 0) navOpen =
     snd (closeMobileMenu navPage (Some 1) (Some 2) navOpen) \<and>
   menuClosed navPage 1 2 (step navPage (Keydown ''Escape'' 0) navOpen)"
proof -
  have h: "navToggle navPage = Some 1 \<and> navMenu navPage = Some 2 \<and>
           classList_contains 2 ''active'' navOpen"
    by code_simp
  with closeMobileMenu_idempotent [of navPage 1 2 navOpen 0] show ?thesis
    by simp
qed

text \<open>
  C4 as stated fails: on the page whose toggle has no \<open>aria-expanded\<close> attribute yet,
  with the menu closed, a click on the nav link 3 writes the attribute.
\<close>

theorem closed_menu_link_click_writes:
  "\<not> classList_contains 2 ''active'' navClosed \<and>
   3 \<in> set (navLinks navPage) \<and>
   getAttribute 1 ''aria-expanded'' navClosed = None \<and>
   getAttribute 1 ''aria-expanded'' (step navPage (Click 3) navClosed) = Some ''false'' \<and>
   \<not> navUntouched navPage 1 2 navClosed (step navPage (Click 3) navClosed)"
  by code_simp

text \<open>
  C4, amended. While the menu is closed, the Escape key changes nothing at all, and a
  click outside the toggle whose path has no nav link leaves every element as it was
  (its outside-click listener does not run the close operation). The listener of a nav
  link has no such guard: a click on a nav link runs the close operation also when the
  menu is closed, so that afterwards \<open>aria-expanded\<close> is "false" and the body's
  \<open>overflow\<close> is empty whatever they were; the class list of the menu is unchanged.
\<close>

theorem closed_menu_dismissals:
  assumes nav: "navToggle d = Some t" "navMenu d = Some m"
    and closed: "\<not> classList_contains m ''active'' s"
  shows "step d (Keydown ''Escape'' target) s = s \<and>
         (t \<notin> set (path d target) \<and> set (path d target) \<inter> set (navLinks d) = {}
            \<longrightarrow> store (step d (Click target) s) = store s) \<and>
         (link \<in> set (navLinks d) \<and> link \<in> set (path d target) \<and> t \<notin> set (path d target)
            \<longrightarrow> menuClosed d t m (step d (Click target) s) \<and>
                classList (store (step d (Click target) s) m) = classList (store s m))"
proof -
  obtain b s1 where cp: "click_path d (path d target) s = (b, s1)"
    by (cases "click_path d (path d target) s")
  have esc: "step d (Keydown ''Escape'' target) s = s"
    by (rule escape_closed [OF nav closed])
  have outside: "store (step d (Click target) s) = store s"
    if a: "t \<notin> set (path d target) \<and> set (path d target) \<inter> set (navLinks d) = {}"
  proof -
    from a click_path_away [OF nav, of "path d target" s] cp have b: "b = False" by simp
    from a click_path_inactive_store [OF nav, of "path d target" s] closed cp
    have s1: "store s1 = store s" by simp
    with closed have "\<not> classList_contains m ''active'' s1"
      by (simp add: classList_contains_def)
    then have "run (mobileNav_documentClick d t m target) s1 = s1"
      by (simp add: mobileNav_documentClick_def run_def)
    with s1 show ?thesis
      using nav cp b by (simp add: step_def dispatch_click_def)
  qed
  have onlink: "menuClosed d t m (step d (Click target) s) \<and>
      classList (store (step d (Click target) s) m) = classList (store s m)"
    if a: "link \<in> set (navLinks d) \<and> link \<in> set (path d target) \<and> t \<notin> set (path d target)"
  proof -
    from a click_path_away [OF nav, of "path d target" s] cp have b: "b = False" by simp
    from a click_path_link [OF nav, of "path d target" link s] cp
    have cl: "menuClosed d t m s1" by simp
    from a click_path_inactive_classList [OF nav, of "path d target" s] closed cp
    have "classList (store s1 m) = classList (store s m)" by simp
    with cl show ?thesis
      using nav cp b by (simp add: step_def dispatch_click_def documentClick_closed)
  qed
  from esc outside onlink show ?thesis by blast
qed

theorem closed_menu_dismissals_witness:
  "navToggle navPage = Some 1 \<and> navMenu navPage = Some 2 \<and>
   \<not> classList_contains 2 ''active'' navClosed \<and>
   step navPage (Keydown ''Escape'' 0) navClosed = navClosed \<and>
   (1 \<notin> set (path navPage 5) \<and> set (path navPage 5) \<inter> set (navLinks navPage) = {}) \<and>
   store (step navPage (Click 5) navClosed) = store navClosed \<and>
   (3 \<in> set (navLinks navPage) \<and> 3 \<in> set (path navPage 3) \<and> 1 \<notin> set (path navPage 3)) \<and>
   menuClosed navPage 1 2 (step navPage (Click 3) navClosed) \<and>
   classList (store (step navPage (Click 3) navClosed) 2) = classList (store navClosed 2)"
proof -
  have nav: "navToggle navPage = Some 1" "navMenu navPage = Some 2"
    by (simp_all add: navPage_def)
  have closed: "\<not> classList_contains 2 ''active'' navClosed"
    by code_simp
  have out: "1 \<notin> set (path navPage 5) \<and> set (path navPage 5) \<inter> set (navLinks navPage) = {}"
    by (simp add: navPage_def)
  have link: "3 \<in> set (navLinks navPage) \<and> 3 \<in> set (path navPage 3) \<and>
              1 \<notin> set (path navPage 3)"
    by (simp add: navPage_def)
  from closed_menu_dismissals [OF nav closed, where target = 0 and link = 3]
    closed_menu_dismissals [OF nav closed, where target = 5 and link = 3]
    closed_menu_dismissals [OF nav closed, where target = 3 and link = 3] nav closed out link
  show ?thesis by simp
qed

text \<open>
  Whenever the menu is absent and the link points to an element that exists, the click
  listener of the link throws, and the state is as before.
\<close>

lemma smoothScroll_click_no_menu:
  assumes "navMenu d = None" "getAttribute link ''href'' s = Some h" "h \<noteq> ''#''"
    "querySelector d h = Selected (Some target)"
  shows "smoothScroll_click d link s = (Throw TypeError, s)"
  using assms by (simp add: smoothScroll_click_def)

text \<open>
  The close operation itself throws when it is given no toggle: the Escape listener of
  \<open>setupKeyboardNavigation\<close> and \<open>handleResize\<close> test the menu only.
\<close>

lemma closeMobileMenu_no_toggle:
  "closeMobileMenu d None menu s = (Throw TypeError, s)"
  by (simp add: closeMobileMenu_def)

text \<open>
  C5. The click listener of an in-page anchor reads \<open>navMenu.classList\<close> without
  checking that the menu was found. On the page without toggle and menu, a click on the
  link 3, whose target \<open>#about\<close> exists, throws a TypeError: the exception reaches the
  browser and no scroll is requested. On the page with both elements the same click
  requests the scroll to 900 - 0 - 20.
\<close>

theorem anchor_click_without_menu_throws:
  "getAttribute 3 ''href'' navClosed = Some ''#about'' \<and>
   querySelector bareNavPage ''#about'' = Selected (Some 4) \<and>
   navMenu bareNavPage = None \<and>
   fst (smoothScroll_click bareNavPage 3 navClosed) = Throw TypeError \<and>
   uncaught (step bareNavPage (Click 3) navClosed) = [TypeError] \<and>
   scrollRequests (step bareNavPage (Click 3) navClosed) = [] \<and>
   uncaught (step navPage (Click 3) navClosed) = [] \<and>
   scrollRequests (step navPage (Click 3) navClosed) = [880]"
  by code_simp

subsection \<open>Form handling\<close>

lemma update_fields [simp]:
  "uncaught (update n f s) = uncaught s"
  "requests (update n f s) = requests s"
  "pendingFetches (update n f s) = pendingFetches s"
  "statusTimers (update n f s) = statusTimers s"
  "scrollRequests (update n f s) = scrollRequests s"
  "frameCallbacks (update n f s) = frameCallbacks s"
  "frameCallbackId (update n f s) = frameCallbackId s"
  "ticking (update n f s) = ticking s"
  "rafId (update n f s) = rafId s"
  "mouseX (update n f s) = mouseX s"
  "mouseY (update n f s) = mouseY s"
  "observed (update n f s) = observed s"
  "scrollY (update n f s) = scrollY s"
  "lastScrollY (update n f s) = lastScrollY s"
  "innerWidth (update n f s) = innerWidth s"
  "resizeTimeout (update n f s) = resizeTimeout s"
  by (simp_all add: update_def)

lemma sameControls_refl: "sameControls s s"
  by (simp add: sameControls_def)

lemma sameControls_trans: "sameControls s s1 \<Longrightarrow> sameControls s1 s2 \<Longrightarrow> sameControls s s2"
  by (simp add: sameControls_def)

lemma sameControls_showFieldError: "sameControls s (showFieldError d field message s)"
  by (simp add: sameControls_def showFieldError_def setStyle_def setAttribute_def
      setTextContent_def split: option.split)

lemma sameControls_clearFieldError: "sameControls s (clearFieldError d field s)"
  by (simp add: sameControls_def clearFieldError_def setStyle_def setAttribute_def
      split: option.split)

lemma sameControls_validateField: "sameControls s (snd (validateField d field s))"
  by (simp add: validateField_def Let_def sameControls_showFieldError
      sameControls_clearFieldError)

lemma fst_validateField: "fst (validateField d field s) = valid (fieldValidity field s)"
  by (simp add: validateField_def Let_def)

lemma sameControls_validity:
  "sameControls s s' \<Longrightarrow> fieldValidity field s' = fieldValidity field s"
  by (simp add: sameControls_def fieldValidity_def)

lemma validateAll_result:
  "sameControls s (snd (validateAll d fs b s)) \<and>
   fst (validateAll d fs b s) = (b \<and> list_all (\<lambda>field. valid (fieldValidity field s)) fs)"
proof (induction fs arbitrary: b s)
  case Nil
  then show ?case by (simp add: sameControls_refl)
next
  case (Cons field fs)
  let ?s1 = "snd (validateField d field s)"
  let ?b1 = "if \<not> valid (fieldValidity field s) then False else b"
  have eq: "validateAll d (field # fs) b s = validateAll d fs ?b1 ?s1"
    using fst_validateField [of d field s] by (simp add: case_prod_beta)
  have sc: "sameControls s ?s1" by (rule sameControls_validateField)
  have "list_all (\<lambda>x. valid (fieldValidity x ?s1)) fs = list_all (\<lambda>x. valid (fieldValidity x s)) fs"
    using sc by (simp add: sameControls_validity)
  with Cons.IH [where b = ?b1 and s = ?s1] sc show ?case
    unfolding eq by (auto intro: sameControls_trans)
qed

lemma formData_sameControls: "sameControls s s' \<Longrightarrow> formData f s' = formData f s"
  by (simp add: formData_def sameControls_def)

lemma showFormStatus_fields [simp]:
  "requests (showFormStatus e msg type s) = requests s"
  "pendingFetches (showFormStatus e msg type s) = pendingFetches s"
  "uncaught (showFormStatus e msg type s) = uncaught s"
  by (simp_all add: showFormStatus_def setTextContent_def Let_def split: option.split)

lemma statusShown_showFormStatus:
  "formStatus d \<noteq> None \<Longrightarrow> statusShown d msg type (showFormStatus (formStatus d) msg type s)"
  by (auto simp: statusShown_def showFormStatus_def setTextContent_def Let_def)

lemma reset_fold_store:
  "store (fold (\<lambda>n. update n (\<lambda>e. e\<lparr>fieldValue := defaultValue e\<rparr>)) ns s) k =
     (if k \<in> set ns then (store s k)\<lparr>fieldValue := defaultValue (store s k)\<rparr> else store s k)"
  by (induction ns arbitrary: s) auto

lemma reset_fold_fields:
  "requests (fold (\<lambda>n. update n g) ns s) = requests s \<and>
   pendingFetches (fold (\<lambda>n. update n g) ns s) = pendingFetches s \<and>
   uncaught (fold (\<lambda>n. update n g) ns s) = uncaught s"
  by (induction ns arbitrary: s) auto

lemma store_reset:
  "store (reset f s) k =
     (if k \<in> set (controls f) then (store s k)\<lparr>fieldValue := defaultValue (store s k)\<rparr>
      else store s k)"
  by (simp add: reset_def reset_fold_store)

lemma reset_fields [simp]:
  "requests (reset f s) = requests s"
  "pendingFetches (reset f s) = pendingFetches s"
  "uncaught (reset f s) = uncaught s"
  by (simp_all add: reset_def reset_fold_fields)

lemma start_invalid:
  assumes "\<not> allValid f s"
  shows "\<exists>s1. sameControls s s1 \<and>
           handleFormSubmission_start d f s =
             (Returned Normal, showFormStatus (formStatus d) fixErrors ''error'' s1)"
proof -
  obtain b s1 where v: "validateAll d (requiredFields f) True s = (b, s1)"
    by (cases "validateAll d (requiredFields f) True s")
  from validateAll_result [where s = s and d = d and fs = "requiredFields f" and b = True] v assms
  have "sameControls s s1" and "\<not> b" by (simp_all add: allValid_def)
  then show ?thesis
    using v by (auto simp: handleFormSubmission_start_def fixErrors_def)
qed

lemma start_valid:
  assumes "allValid f s" "btnSubmit f = Some b"
  shows "\<exists>s2. handleFormSubmission_start d f s =
           (Awaiting, s2\<lparr>requests := requests s @ [postRequest f (update b (\<lambda>e. e\<lparr>disabled := True\<rparr>) s)],
                         pendingFetches := pendingFetches s + 1\<rparr>) \<and>
           uncaught s2 = uncaught s"
proof -
  obtain v s1 where v: "validateAll d (requiredFields f) True s = (v, s1)"
    by (cases "validateAll d (requiredFields f) True s")
  from validateAll_result [where s = s and d = d and fs = "requiredFields f" and b = True] v assms
  have sc: "sameControls s s1" and "v" by (simp_all add: allValid_def)
  let ?s2 = "update b (\<lambda>e. e\<lparr>disabled := True\<rparr>) (classList_add b ''loading'' s1)"
  have "sameControls (update b (\<lambda>e. e\<lparr>disabled := True\<rparr>) s) ?s2"
    using sc by (simp add: sameControls_def classList_add_def)
  then have fd: "formData f ?s2 = formData f (update b (\<lambda>e. e\<lparr>disabled := True\<rparr>) s)"
    by (rule formData_sameControls)
  have r: "requests ?s2 = requests s" "pendingFetches ?s2 = pendingFetches s"
      "uncaught ?s2 = uncaught s"
    using sc by (simp_all add: sameControls_def classList_add_def)
  have "handleFormSubmission_start d f s =
      (Awaiting, ?s2\<lparr>requests := requests s @ [postRequest f (update b (\<lambda>e. e\<lparr>disabled := True\<rparr>) s)],
                     pendingFetches := pendingFetches s + 1\<rparr>)"
    using v \<open>v\<close> assms(2) fd r
    by (simp add: handleFormSubmission_start_def setFormLoading_def postRequest_def)
  with r show ?thesis by blast
qed

lemma resume_requests:
  "requests (snd (handleFormSubmission_resume d f outcome s)) = requests s"
  by (simp add: handleFormSubmission_resume_def setFormLoading_def Let_def classList_remove_def
      split: option.split settled.split)

subsection \<open>Claims on the form\<close>

text \<open>
  C10. \<open>clearFieldError\<close> changes nothing but the store, and in the store compares to the
  state before as follows, element by element: the \<open>aria-invalid\<close> attribute of the
  field is "false", the \<open>opacity\<close> of the field's error element (when there is one) is
  \<open>0\<close>, and nothing else differs; in particular the text of every element, the error
  message included, stays. It is what the input listener of every required field runs,
  without looking at the state.
\<close>

theorem clearFieldError_frame:
  "clearFieldError d field s = s\<lparr>store := store (clearFieldError d field s)\<rparr> \<and>
   store (clearFieldError d field s) n =
     (store s n)
       \<lparr>attributes := (if n = field then (attributes (store s n))(''aria-invalid'' \<mapsto> ''false'')
                       else attributes (store s n)),
        style := (if errorMessage d field = Some n then (style (store s n))(''opacity'' := Str ''0'')
                  else style (store s n))\<rparr> \<and>
   textContent (store (clearFieldError d field s) n) = textContent (store s n) \<and>
   (contactForm d = Some f \<and> field \<in> set (requiredFields f) \<longrightarrow>
      step d (Input field v) s =
        clearFieldError d field (update field (\<lambda>e. e\<lparr>fieldValue := v\<rparr>) s))"
  by (simp add: clearFieldError_def setStyle_def setAttribute_def update_def step_def Let_def
      split: option.split)

theorem clearFieldError_frame_witness:
  "contactForm formPage = Some contact \<and> 10 \<in> set (requiredFields contact) \<and>
   step formPage (Input 10 ''A'') (step formPage (Blur 10) formEmpty) =
     clearFieldError formPage 10
       (update 10 (\<lambda>e. e\<lparr>fieldValue := ''A''\<rparr>) (step formPage (Blur 10) formEmpty)) \<and>
   textContent (store (step formPage (Blur 10) formEmpty) 20) = ''This field is required'' \<and>
   textContent (store (step formPage (Input 10 ''A'') (step formPage (Blur 10) formEmpty)) 20) =
     ''This field is required'' \<and>
   getStyle 20 ''opacity'' (step formPage (Input 10 ''A'') (step formPage (Blur 10) formEmpty)) =
     Str ''0'' \<and>
   getAttribute 10 ''aria-invalid''
     (step formPage (Input 10 ''A'') (step formPage (Blur 10) formEmpty)) = Some ''false''"
proof -
  have h: "contactForm formPage = Some contact \<and> 10 \<in> set (requiredFields contact)"
    by code_simp
  have e: "textContent (store (step formPage (Blur 10) formEmpty) 20) = ''This field is required'' \<and>
   textContent (store (step formPage (Input 10 ''A'') (step formPage (Blur 10) formEmpty)) 20) =
     ''This field is required'' \<and>
   getStyle 20 ''opacity'' (step formPage (Input 10 ''A'') (step formPage (Blur 10) formEmpty)) =
     Str ''0'' \<and>
   getAttribute 10 ''aria-invalid''
     (step formPage (Input 10 ''A'') (step formPage (Blur 10) formEmpty)) = Some ''false''"
    by code_simp
  from clearFieldError_frame [of formPage 10 "step formPage (Blur 10) formEmpty" 20 contact "''A''"] h e
  show ?thesis by blast
qed

lemma handleFormSubmission_invalid:
  assumes "\<not> allValid f s"
  shows "fst (handleFormSubmission d f outcome s) = Normal \<and>
         requests (snd (handleFormSubmission d f outcome s)) = requests s \<and>
         (formStatus d \<noteq> None \<longrightarrow>
            statusShown d fixErrors ''error'' (snd (handleFormSubmission d f outcome s)))"
proof -
  from start_invalid [OF assms, of d] obtain s1 where sc: "sameControls s s1"
    and st: "handleFormSubmission_start d f s =
             (Returned Normal, showFormStatus (formStatus d) fixErrors ''error'' s1)"
    by blast
  from sc have "requests s1 = requests s" by (simp add: sameControls_def)
  then show ?thesis
    using st by (simp add: handleFormSubmission_def statusShown_showFormStatus)
qed

lemma handleFormSubmission_valid:
  assumes "allValid f s" "btnSubmit f = Some b"
  shows "requests (snd (handleFormSubmission d f outcome s)) =
           requests s @ [postRequest f (update b (\<lambda>e. e\<lparr>disabled := True\<rparr>) s)]"
proof -
  from start_valid [OF assms, of d] obtain s2 where
    st: "handleFormSubmission_start d f s =
           (Awaiting, s2\<lparr>requests := requests s @ [postRequest f (update b (\<lambda>e. e\<lparr>disabled := True\<rparr>) s)],
                         pendingFetches := pendingFetches s + 1\<rparr>)"
    by blast
  show ?thesis
    by (simp add: handleFormSubmission_def st resume_requests)
qed

lemma submit_requests:
  assumes "contactForm d = Some f"
  shows "requests (step d Submit s) = requests (snd (handleFormSubmission d f outcome s))"
proof -
  obtain p s1 where st: "handleFormSubmission_start d f s = (p, s1)"
    by (cases "handleFormSubmission_start d f s")
  show ?thesis
    using assms st
    by (cases p; simp add: step_def run_def handleFormSubmission_def resume_requests
        split: completion.split)
qed

text \<open>
  C1 as stated fails: on the page without a status region, submitting the form with its
  required fields empty shows no aggregate error status: no element of the page gets the
  text of the message (the fields get their own messages, and no request is made).
\<close>

theorem invalid_submission_without_status_region:
  "contactForm formPageNoStatus = Some contact \<and>
   \<not> allValid contact formEmpty \<and>
   \<not> statusShown formPageNoStatus fixErrors ''error'' (step formPageNoStatus Submit formEmpty) \<and>
   \<not> list_ex (\<lambda>n. textContent (store (step formPageNoStatus Submit formEmpty) n) = fixErrors)
       [0, 10, 11, 12, 14, 20, 21] \<and>
   textContent (store (step formPageNoStatus Submit formEmpty) 20) = ''This field is required'' \<and>
   requests (step formPageNoStatus Submit formEmpty) = [] \<and>
   uncaught (step formPageNoStatus Submit formEmpty) = []"
  by code_simp

text \<open>
  A valid submission needs the submit button: without an element of class
  \<open>btn-submit\<close> in the form, \<open>setFormLoading\<close> throws before the call of \<open>fetch\<close>.
\<close>

lemma valid_submission_without_button:
  "allValid (contact\<lparr>btnSubmit := None\<rparr>) formFilled \<and>
   requests (step formPageNoButton Submit formFilled) = [] \<and>
   uncaught (step formPageNoButton Submit formFilled) = [TypeError]"
  by code_simp

text \<open>
  C1, amended. When a required field is invalid, the handler returns without a request,
  and it shows the aggregate error status in the status region when the page has one
  (without that element nothing is shown). When every required field is valid and the
  form has its submit button, the handler makes exactly one request, whatever the
  outcome of the fetch: a POST to the form's action, with the header
  \<open>Accept: application/json\<close> and the form data of the moment, the button being disabled.
  The submit event makes the requests of its handler.
\<close>

theorem submission_protocol:
  assumes "contactForm d = Some f"
  shows "requests (step d Submit s) = requests (snd (handleFormSubmission d f outcome s)) \<and>
         (\<not> allValid f s \<longrightarrow>
            fst (handleFormSubmission d f outcome s) = Normal \<and>
            requests (snd (handleFormSubmission d f outcome s)) = requests s \<and>
            (formStatus d \<noteq> None \<longrightarrow>
               statusShown d fixErrors ''error'' (snd (handleFormSubmission d f outcome s)))) \<and>
         (allValid f s \<and> btnSubmit f = Some b \<longrightarrow>
            requests (snd (handleFormSubmission d f outcome s)) =
              requests s @
                [\<lparr>url = action f, httpMethod = ''POST'',
                  requestBody = formData f (update b (\<lambda>e. e\<lparr>disabled := True\<rparr>) s),
                  headers = [(''Accept'', ''application/json'')]\<rparr>])"
  using submit_requests [OF assms, of s outcome] handleFormSubmission_invalid [of f s d outcome]
    handleFormSubmission_valid [of f s b d outcome]
  by (simp add: postRequest_def)

theorem submission_protocol_witness:
  "contactForm formPage = Some contact \<and>
   \<not> allValid contact formEmpty \<and> formStatus formPage \<noteq> None \<and>
   requests (step formPage Submit formEmpty) = [] \<and>
   statusShown formPage fixErrors ''error''
     (snd (handleFormSubmission formPage contact Rejected formEmpty)) \<and>
   allValid contact formFilled \<and> btnSubmit contact = Some 12 \<and>
   requests (step formPage Submit formFilled) =
     [\<lparr>url = ''https://formspree.io/f/contact'', httpMethod = ''POST'',
       requestBody = [(''name'', ''Ann''), (''email'', ''ann@example.org'')],
       headers = [(''Accept'', ''application/json'')]\<rparr>]"
proof -
  have f: "contactForm formPage = Some contact"
    by (simp add: formPage_def)
  have h: "\<not> allValid contact formEmpty \<and> formStatus formPage \<noteq> None \<and>
           allValid contact formFilled \<and> btnSubmit contact = Some 12"
    by code_simp
  have e: "requests formEmpty = [] \<and> requests formFilled = [] \<and>
           action contact = ''https://formspree.io/f/contact'' \<and>
           formData contact (update 12 (\<lambda>e. e\<lparr>disabled := True\<rparr>) formFilled) =
             [(''name'', ''Ann''), (''email'', ''ann@example.org'')]"
    by code_simp
  from submission_protocol [OF f, of formEmpty Rejected 12]
    submission_protocol [OF f, of formFilled Rejected 12] f h e
  show ?thesis by simp
qed

lemma start_awaiting_button:
  "handleFormSubmission_start d f s = (Awaiting, s1) \<Longrightarrow> \<exists>b. btnSubmit f = Some b"
  by (cases "btnSubmit f")
    (auto simp: handleFormSubmission_start_def setFormLoading_def Let_def
      split: prod.splits if_splits)

lemma resume_loading_cleared:
  assumes "btnSubmit f = Some b"
  shows "fst (handleFormSubmission_resume d f outcome s) = Normal \<and>
         \<not> disabled (store (snd (handleFormSubmission_resume d f outcome s)) b) \<and>
         \<not> classList_contains b ''loading'' (snd (handleFormSubmission_resume d f outcome s))"
  using assms
  by (simp add: handleFormSubmission_resume_def setFormLoading_def Let_def classList_contains_def
      classList_remove_def)

lemma statusShown_setFormLoading:
  "type \<noteq> ''loading'' \<Longrightarrow> statusShown d msg type s \<Longrightarrow>
   statusShown d msg type (snd (setFormLoading (Some b) False s))"
  by (auto simp: statusShown_def setFormLoading_def classList_remove_def split: option.splits)

lemma statusShown_reset:
  "statusShown d msg type s \<Longrightarrow> statusShown d msg type (reset f s)"
  by (auto simp: statusShown_def store_reset split: option.splits)

lemma resume_status:
  assumes "btnSubmit f = Some b" "formStatus d \<noteq> None"
  shows "statusShown d
           (case outcome of Response status \<Rightarrow> if ok status then thankYou else sorryRetry
                          | Rejected \<Rightarrow> sorryRetry)
           (case outcome of Response status \<Rightarrow> if ok status then ''success'' else ''error''
                          | Rejected \<Rightarrow> ''error'')
           (snd (handleFormSubmission_resume d f outcome s))"
proof -
  have failed: "statusShown d sorryRetry ''error''
      (snd (setFormLoading (Some b) False (showFormStatus (formStatus d) sorryRetry ''error'' s)))"
    by (rule statusShown_setFormLoading, simp, rule statusShown_showFormStatus [OF assms(2)])
  have succeeded: "statusShown d thankYou ''success''
      (snd (setFormLoading (Some b) False
              (reset f (showFormStatus (formStatus d) thankYou ''success'' s))))"
    by (rule statusShown_setFormLoading, simp, rule statusShown_reset,
        rule statusShown_showFormStatus [OF assms(2)])
  from failed succeeded show ?thesis
    using assms(1)
    by (cases outcome) (simp_all add: handleFormSubmission_resume_def Let_def thankYou_def sorryRetry_def)
qed

lemma resume_reset:
  assumes "btnSubmit f = Some b" "ok status" "n \<in> set (controls f)"
  shows "fieldValue (store (snd (handleFormSubmission_resume d f (Response status) s)) n) =
         defaultValue (store s n)"
  using assms
  by (auto simp: handleFormSubmission_resume_def setFormLoading_def Let_def classList_remove_def
      store_reset showFormStatus_def setTextContent_def split: option.split)

text \<open>
  C2. A submission that has reached the call of \<open>fetch\<close> has a submit button, and when
  the fetch settles, in whatever state of the page and with whatever outcome (a response
  of any status, or a rejection), the rest of the handler completes normally and leaves
  the button enabled and without the \<open>loading\<close> class. On a response with a status from
  200 to 299 every control of the form has its default value again and the status region,
  when the page has one, shows the success message; on any other response and on a
  rejection it shows the fixed error message.
\<close>

theorem loading_state_cleared:
  assumes "handleFormSubmission_start d f s0 = (Awaiting, s1)"
  shows "\<exists>b. btnSubmit f = Some b \<and>
           fst (handleFormSubmission_resume d f outcome s) = Normal \<and>
           \<not> disabled (store (snd (handleFormSubmission_resume d f outcome s)) b) \<and>
           \<not> classList_contains b ''loading'' (snd (handleFormSubmission_resume d f outcome s)) \<and>
           (formStatus d \<noteq> None \<longrightarrow>
              statusShown d
                (case outcome of Response status \<Rightarrow> if ok status then thankYou else sorryRetry
                               | Rejected \<Rightarrow> sorryRetry)
                (case outcome of Response status \<Rightarrow> if ok status then ''success'' else ''error''
                               | Rejected \<Rightarrow> ''error'')
                (snd (handleFormSubmission_resume d f outcome s))) \<and>
           (\<forall>status. outcome = Response status \<and> ok status \<longrightarrow>
              (\<forall>n \<in> set (controls f).
                 fieldValue (store (snd (handleFormSubmission_resume d f outcome s)) n) =
                 defaultValue (store s n)))"
proof -
  from start_awaiting_button [OF assms] obtain b where b: "btnSubmit f = Some b" ..
  let ?s' = "snd (handleFormSubmission_resume d f outcome s)"
  have cleared: "fst (handleFormSubmission_resume d f outcome s) = Normal \<and>
      \<not> disabled (store ?s' b) \<and> \<not> classList_contains b ''loading'' ?s'"
    by (rule resume_loading_cleared [OF b])
  have shown: "formStatus d \<noteq> None \<longrightarrow>
      statusShown d
        (case outcome of Response status \<Rightarrow> if ok status then thankYou else sorryRetry
                       | Rejected \<Rightarrow> sorryRetry)
        (case outcome of Response status \<Rightarrow> if ok status then ''success'' else ''error''
                       | Rejected \<Rightarrow> ''error'') ?s'"
    using resume_status [OF b, of d outcome s] by (rule impI)
  have restored: "\<forall>status. outcome = Response status \<and> ok status \<longrightarrow>
      (\<forall>n \<in> set (controls f). fieldValue (store ?s' n) = defaultValue (store s n))"
  proof (intro allI impI ballI)
    fix status n
    assume "outcome = Response status \<and> ok status" and "n \<in> set (controls f)"
    then show "fieldValue (store ?s' n) = defaultValue (store s n)"
      using resume_reset [OF b, of status n d s] by simp
  qed
  show ?thesis
  proof (rule exI [of _ b], intro conjI)
    show "btnSubmit f = Some b" by (rule b)
  qed (use cleared shown restored in simp_all)
qed

theorem loading_state_cleared_witness:
  "handleFormSubmission_start formPage contact formFilled =
     (Awaiting, snd (handleFormSubmission_start formPage contact formFilled)) \<and>
   btnSubmit contact = Some 12 \<and>
   disabled (store (snd (handleFormSubmission_start formPage contact formFilled)) 12) \<and>
   \<not> disabled (store (snd (handleFormSubmission_resume formPage contact (Response 200)
                   (snd (handleFormSubmission_start formPage contact formFilled)))) 12) \<and>
   \<not> classList_contains 12 ''loading''
       (snd (handleFormSubmission_resume formPage contact (Response 200)
               (snd (handleFormSubmission_start formPage contact formFilled)))) \<and>
   \<not> disabled (store (snd (handleFormSubmission_resume formPage contact Rejected
                   (snd (handleFormSubmission_start formPage contact formFilled)))) 12) \<and>
   statusShown formPage sorryRetry ''error''
     (snd (handleFormSubmission_resume formPage contact Rejected
             (snd (handleFormSubmission_start formPage contact formFilled))))"
proof -
  let ?s1 = "snd (handleFormSubmission_start formPage contact formFilled)"
  have "fst (handleFormSubmission_start formPage contact formFilled) = Awaiting"
    by code_simp
  then have h: "handleFormSubmission_start formPage contact formFilled = (Awaiting, ?s1)"
    by (simp add: prod_eq_iff)
  have e: "btnSubmit contact = Some 12 \<and> disabled (store ?s1 12) \<and> formStatus formPage \<noteq> None"
    by code_simp
  from loading_state_cleared [OF h, of "Response 200" ?s1]
    loading_state_cleared [OF h, of Rejected ?s1] h e
  show ?thesis by auto
qed

subsection \<open>Scheduling\<close>

lemma sched_update [simp]: "sched (update n f s) = sched s"
  by (simp add: sched_def)

lemma sched_dom [simp]:
  "sched (setAttribute n a v s) = sched s"
  "sched (setStyle n p c s) = sched s"
  "sched (classList_add n k s) = sched s"
  "sched (classList_remove n k s) = sched s"
  "sched (classList_toggle n k s) = sched s"
  "sched (setTextContent n x s) = sched s"
  by (simp_all add: setAttribute_def setStyle_def classList_add_def classList_remove_def
      classList_toggle_def setTextContent_def)

lemma sched_fields [simp]:
  "sched (s\<lparr>uncaught := u\<rparr>) = sched s"
  "sched (s\<lparr>scrollRequests := r\<rparr>) = sched s"
  "sched (s\<lparr>scrollY := y\<rparr>) = sched s"
  "sched (s\<lparr>lastScrollY := y\<rparr>) = sched s"
  "sched (s\<lparr>mouseX := mx\<rparr>) = sched s"
  "sched (s\<lparr>mouseY := my\<rparr>) = sched s"
  "sched (s\<lparr>observed := ob\<rparr>) = sched s"
  "sched (s\<lparr>requests := rq\<rparr>) = sched s"
  "sched (s\<lparr>pendingFetches := pf\<rparr>) = sched s"
  "sched (s\<lparr>statusTimers := tm\<rparr>) = sched s"
  "sched (s\<lparr>innerWidth := w\<rparr>) = sched s"
  "sched (s\<lparr>resizeTimeout := rt\<rparr>) = sched s"
  by (simp_all add: sched_def)

lemma schedInv_sched: "sched s' = sched s \<Longrightarrow> schedInv s' = schedInv s"
  by (simp add: sched_def schedInv_def headerPending_def parallaxPending_def)

lemma sched_run: "sched (run h s) = sched (snd (h s))"
  by (simp add: run_def split: prod.split completion.split)

lemma sched_closeMobileMenu [simp]: "sched (snd (closeMobileMenu d toggle menu s)) = sched s"
  by (simp add: closeMobileMenu_def Let_def split: option.split)

lemma sched_toggleMobileMenu [simp]: "sched (snd (toggleMobileMenu d toggle menu s)) = sched s"
  by (simp add: toggleMobileMenu_def Let_def split: option.split)

lemma sched_smoothScroll [simp]: "sched (snd (smoothScroll_click d x s)) = sched s"
  by (simp add: smoothScroll_click_def Let_def case_prod_beta
      split: option.split selected.split completion.split)

lemma sched_click_path [simp]: "sched (snd (click_path d xs s)) = sched s"
proof (induction xs arbitrary: s)
  case Nil
  then show ?case by simp
next
  case (Cons x xs)
  show ?case
    by (simp add: Let_def Cons.IH sched_run mobileNav_toggleClick_def mobileNav_linkClick_def
        split: option.split)
qed

lemma sched_dispatch_click [simp]: "sched (dispatch_click d target s) = sched s"
  by (simp add: dispatch_click_def case_prod_beta sched_run mobileNav_documentClick_def
      split: option.split)

lemma sched_dispatch_keydown [simp]: "sched (dispatch_keydown d key target s) = sched s"
  by (simp add: dispatch_keydown_def Let_def sched_run focus_toggleKeydown_def
      mobileNav_documentKeydown_def keyboardNav_keydown_def split: option.split)

lemma sched_fieldErrors [simp]:
  "sched (showFieldError d field message s) = sched s"
  "sched (clearFieldError d field s) = sched s"
  by (simp_all add: showFieldError_def clearFieldError_def split: option.split)

lemma sched_validateField [simp]: "sched (snd (validateField d field s)) = sched s"
  by (simp add: validateField_def Let_def)

lemma sched_validateAll [simp]: "sched (snd (validateAll d fs b s)) = sched s"
  by (induction fs arbitrary: b s) (simp_all add: case_prod_beta)

lemma sched_showFormStatus [simp]: "sched (showFormStatus e msg type s) = sched s"
  by (simp add: showFormStatus_def Let_def split: option.split)

lemma sched_setFormLoading [simp]: "sched (snd (setFormLoading button loading s)) = sched s"
  by (simp add: setFormLoading_def split: option.split)

lemma sched_fold_update: "sched (fold (\<lambda>n. update n (g n)) ns s) = sched s"
  by (induction ns arbitrary: s) simp_all

lemma sched_reset [simp]: "sched (reset f s) = sched s"
  by (simp add: reset_def sched_fold_update)

lemma sched_start [simp]: "sched (snd (handleFormSubmission_start d f s)) = sched s"
  by (simp add: handleFormSubmission_start_def case_prod_beta Let_def
      split: prod.split completion.split)

lemma sched_resume [simp]: "sched (snd (handleFormSubmission_resume d f outcome s)) = sched s"
  by (simp add: handleFormSubmission_resume_def Let_def split: settled.split)

lemma sched_handleResize [simp]: "sched (snd (handleResize d s)) = sched s"
  by (simp add: handleResize_def)

lemma sched_entry [simp]: "sched (scrollAnimations_entry entry s) = sched s"
  by (simp add: scrollAnimations_entry_def unobserve_def split: prod.split)

lemma sched_intersect [simp]: "sched (intersect batch s) = sched s"
proof -
  have "sched (fold scrollAnimations_entry es s') = sched s'" for es s'
    by (induction es arbitrary: s') simp_all
  then show ?thesis by (simp add: intersect_def scrollAnimations_callback_def)
qed

lemma sched_handleMouseMove [simp]: "sched (handleMouseMove cx cy l t w h s) = sched s"
  by (simp add: handleMouseMove_def)

lemma sched_submit [simp]:
  "sched (snd (case handleFormSubmission_start d f s of
                 (Returned c, s1) \<Rightarrow> (c, s1)
               | (Awaiting, s1) \<Rightarrow> (Normal, s1))) = sched s"
proof -
  obtain p s1 where st: "handleFormSubmission_start d f s = (p, s1)"
    by (cases "handleFormSubmission_start d f s")
  with sched_start [of d f s] have "sched s1 = sched s" by simp
  then show ?thesis using st by (cases p) simp_all
qed

text \<open>Events that leave scheduling alone.\<close>

lemma sched_step:
  assumes "\<forall>y. ev \<noteq> Scroll y" "ev \<noteq> AnimationFrame" "ev \<noteq> MouseEnter" "ev \<noteq> MouseLeave"
  shows "sched (step d ev s) = sched s"
  using assms
  by (cases ev)
    (simp_all add: step_def Let_def sched_run statusTimeout_def split: option.split)

text \<open>The invariant, read off the scheduling part of the state.\<close>

lemma schedInv_alt:
  "schedInv s =
     (case sched s of (tk, fs, fid, r) \<Rightarrow>
        distinct (map fst fs) \<and>
        list_all (\<lambda>entry. 0 < fst entry \<and> fst entry \<le> fid) fs \<and>
        length (filter isHeader fs) = (if tk then 1 else 0) \<and>
        filter isParallax fs = (case r of None \<Rightarrow> [] | Some h \<Rightarrow> [(h, UpdateParallax)]) \<and>
        r \<noteq> Some 0)"
  by (simp add: schedInv_def sched_def headerPending_def parallaxPending_def)

lemma fresh_handle:
  "list_all (\<lambda>entry. 0 < fst entry \<and> fst entry \<le> n) xs \<Longrightarrow> Suc n \<notin> fst ` set xs"
  by (auto simp: list_all_iff)

lemma bound_Suc:
  "list_all (\<lambda>entry. 0 < fst entry \<and> fst entry \<le> n) xs \<Longrightarrow>
   list_all (\<lambda>entry. 0 < fst entry \<and> fst entry \<le> Suc n) xs"
  by (auto simp: list_all_iff)

lemma bound_filter:
  "list_all Q xs \<Longrightarrow> list_all Q (filter P xs)"
  by (auto simp: list_all_iff)

lemma distinct_fst_filter:
  "distinct (map fst xs) \<Longrightarrow> distinct (map fst (filter P xs))"
  by (simp add: distinct_map_filter)

lemma cancel_filter_other:
  assumes "distinct (map fst xs)" "(h, cb) \<in> set xs" "\<not> P (h, cb)"
  shows "filter P (filter (\<lambda>(k, c). k \<noteq> h) xs) = filter P xs"
proof -
  have "(case x of (k, c) \<Rightarrow> k \<noteq> h) \<and> P x \<longleftrightarrow> P x" if "x \<in> set xs" for x
  proof (cases x)
    case (Pair k c)
    show ?thesis
    proof (cases "k = h")
      case True
      with Pair that assms(1,2) have "c = cb"
        by (auto dest: eq_key_imp_eq_value)
      with True Pair assms(3) show ?thesis by simp
    next
      case False
      with Pair show ?thesis by simp
    qed
  qed
  then show ?thesis by (simp cong: filter_cong)
qed

lemma cancel_filter_same:
  assumes "filter P xs = [(h, cb)]"
  shows "filter P (filter (\<lambda>(k, c). k \<noteq> h) xs) = []"
proof -
  have "filter P (filter (\<lambda>(k, c). k \<noteq> h) xs) = filter (\<lambda>(k, c). k \<noteq> h) (filter P xs)"
    by (simp add: conj_commute)
  with assms show ?thesis by simp
qed

lemma singleton_member: "length ys = 1 \<Longrightarrow> x \<in> set ys \<Longrightarrow> ys = [x]"
  by (cases ys) auto

lemma sched_requestAnimationFrame:
  "sched (snd (requestAnimationFrame cb s)) =
     (ticking s, frameCallbacks s @ [(Suc (frameCallbackId s), cb)], Suc (frameCallbackId s),
      rafId s)"
  by (simp add: requestAnimationFrame_def sched_def Let_def)

lemma fst_requestAnimationFrame: "fst (requestAnimationFrame cb s) = Suc (frameCallbackId s)"
  by (simp add: requestAnimationFrame_def Let_def)

lemma sched_cancelAnimationFrame:
  "sched (cancelAnimationFrame h s) =
     (ticking s, filter (\<lambda>(k, c). k \<noteq> h) (frameCallbacks s), frameCallbackId s, rafId s)"
  by (simp add: cancelAnimationFrame_def sched_def)

lemma sched_ticking: "sched (s\<lparr>ticking := b\<rparr>) = (b, snd (sched s))"
  by (simp add: sched_def)

lemma sched_rafId:
  "sched (s\<lparr>rafId := r\<rparr>) = (ticking s, frameCallbacks s, frameCallbackId s, r)"
  by (simp add: sched_def)

lemma sched_onScroll:
  "sched (onScroll header s) =
     (if ticking s then sched s
      else (True, frameCallbacks s @ [(Suc (frameCallbackId s), UpdateHeader header)],
            Suc (frameCallbackId s), rafId s))"
  by (simp add: onScroll_def sched_ticking sched_requestAnimationFrame)

lemma sched_updateHeader:
  "sched (updateHeader header s) = (False, frameCallbacks s, frameCallbackId s, rafId s)"
  by (simp add: updateHeader_def Let_def sched_def classList_add_def classList_remove_def
      setStyle_def)

lemma sched_fold:
  "(\<And>x s'. sched (f x s') = sched s') \<Longrightarrow> sched (fold f xs s) = sched s"
  by (induction xs arbitrary: s) simp_all

lemma sched_updateParallax:
  "sched (updateParallax d s) =
     (ticking s, frameCallbacks s @ [(Suc (frameCallbackId s), UpdateParallax)],
      Suc (frameCallbackId s), Some (Suc (frameCallbackId s)))"
proof -
  let ?s1 = "fold (\<lambda>(index, orb) s'.
                  let speed = (of_nat index + 1) * (1 / 2)
                  in setStyle orb ''transform''
                       (TranslatePx (scaled (mouseX s') speed) (scaled (mouseY s') speed)) s')
                (enumerate 0 (floatingOrbs d)) s"
  let ?s2 = "fold (\<lambda>(index, cube) s'.
                  let speed = (of_nat index + 1) * 2
                  in setStyle cube ''transform''
                       (RotateXYDeg (scaled (mouseY s') speed) (scaled (mouseX s') speed)) s')
                (enumerate 0 (floatingCubes d)) ?s1"
  have 1: "sched ?s1 = sched s"
    by (rule sched_fold) (simp add: case_prod_beta Let_def)
  have 2: "sched ?s2 = sched ?s1"
    by (rule sched_fold) (simp add: case_prod_beta Let_def)
  from 1 2 have s2: "sched ?s2 = sched s" by simp
  have "updateParallax d s =
      (snd (requestAnimationFrame UpdateParallax ?s2))
        \<lparr>rafId := Some (fst (requestAnimationFrame UpdateParallax ?s2))\<rparr>"
    by (simp add: updateParallax_def Let_def case_prod_beta)
  then show ?thesis
    using s2 sched_requestAnimationFrame [of UpdateParallax ?s2]
    by (simp add: sched_rafId fst_requestAnimationFrame sched_def)
qed

lemma isHeader_simps [simp]:
  "isHeader (h, UpdateHeader header)" "\<not> isHeader (h, UpdateParallax)"
  "\<not> isParallax (h, UpdateHeader header)" "isParallax (h, UpdateParallax)"
  by (simp_all add: isHeader_def isParallax_def)

lemma schedInv_onScroll:
  assumes "schedInv s"
  shows "schedInv (onScroll header s)"
proof (cases "ticking s")
  case True
  then have "sched (onScroll header s) = sched s" by (simp add: sched_onScroll)
  from schedInv_sched [OF this] assms show ?thesis by simp
next
  case False
  from assms have inv: "distinct (map fst (frameCallbacks s))"
    "list_all (\<lambda>entry. 0 < fst entry \<and> fst entry \<le> frameCallbackId s) (frameCallbacks s)"
    "length (filter isHeader (frameCallbacks s)) = (if ticking s then 1 else 0)"
    "filter isParallax (frameCallbacks s) =
       (case rafId s of None \<Rightarrow> [] | Some h \<Rightarrow> [(h, UpdateParallax)])"
    "rafId s \<noteq> Some 0"
    by (simp_all add: schedInv_def headerPending_def parallaxPending_def)
  from False inv fresh_handle [OF inv(2)] bound_Suc [OF inv(2)] show ?thesis
    by (simp add: schedInv_alt sched_onScroll)
qed

lemma schedInv_mouseenter:
  assumes "schedInv s"
  shows "schedInv (parallax_mouseenter s)"
proof (cases "truthy (rafId s)")
  case True
  with assms show ?thesis by (simp add: parallax_mouseenter_def)
next
  case False
  from assms have inv: "distinct (map fst (frameCallbacks s))"
    "list_all (\<lambda>entry. 0 < fst entry \<and> fst entry \<le> frameCallbackId s) (frameCallbacks s)"
    "length (filter isHeader (frameCallbacks s)) = (if ticking s then 1 else 0)"
    "filter isParallax (frameCallbacks s) =
       (case rafId s of None \<Rightarrow> [] | Some h \<Rightarrow> [(h, UpdateParallax)])"
    "rafId s \<noteq> Some 0"
    by (simp_all add: schedInv_def headerPending_def parallaxPending_def)
  from False inv(5) have none: "rafId s = None"
    by (cases "rafId s") (simp_all add: truthy_def)
  have "parallax_mouseenter s =
      (snd (requestAnimationFrame UpdateParallax s))
        \<lparr>rafId := Some (fst (requestAnimationFrame UpdateParallax s))\<rparr>"
    using False by (simp add: parallax_mouseenter_def case_prod_beta)
  then have "sched (parallax_mouseenter s) =
      (ticking s, frameCallbacks s @ [(Suc (frameCallbackId s), UpdateParallax)],
       Suc (frameCallbackId s), Some (Suc (frameCallbackId s)))"
    using sched_requestAnimationFrame [of UpdateParallax s]
    by (simp add: sched_rafId fst_requestAnimationFrame sched_def)
  with none inv fresh_handle [OF inv(2)] bound_Suc [OF inv(2)] show ?thesis
    by (simp add: schedInv_alt)
qed

lemma schedInv_cancel_parallax:
  assumes "schedInv s" "(h, UpdateParallax) \<in> set (frameCallbacks s)"
  shows "rafId s = Some h \<and>
         distinct (map fst (filter (\<lambda>(k, c). k \<noteq> h) (frameCallbacks s))) \<and>
         list_all (\<lambda>entry. 0 < fst entry \<and> fst entry \<le> frameCallbackId s)
           (filter (\<lambda>(k, c). k \<noteq> h) (frameCallbacks s)) \<and>
         length (filter isHeader (filter (\<lambda>(k, c). k \<noteq> h) (frameCallbacks s))) =
           (if ticking s then 1 else 0) \<and>
         filter isParallax (filter (\<lambda>(k, c). k \<noteq> h) (frameCallbacks s)) = []"
proof -
  from assms(1) have inv: "distinct (map fst (frameCallbacks s))"
    "list_all (\<lambda>entry. 0 < fst entry \<and> fst entry \<le> frameCallbackId s) (frameCallbacks s)"
    "length (filter isHeader (frameCallbacks s)) = (if ticking s then 1 else 0)"
    "filter isParallax (frameCallbacks s) =
       (case rafId s of None \<Rightarrow> [] | Some h \<Rightarrow> [(h, UpdateParallax)])"
    by (simp_all add: schedInv_def headerPending_def parallaxPending_def)
  from assms(2) have "(h, UpdateParallax) \<in> set (filter isParallax (frameCallbacks s))"
    by simp
  with inv(4) have r: "rafId s = Some h"
    by (cases "rafId s") simp_all
  with inv(4) have "filter isParallax (frameCallbacks s) = [(h, UpdateParallax)]" by simp
  then have p: "filter isParallax (filter (\<lambda>(k, c). k \<noteq> h) (frameCallbacks s)) = []"
    by (rule cancel_filter_same)
  have "filter isHeader (filter (\<lambda>(k, c). k \<noteq> h) (frameCallbacks s)) =
        filter isHeader (frameCallbacks s)"
    by (rule cancel_filter_other [OF inv(1) assms(2)]) simp
  with r p inv show ?thesis
    by (simp add: distinct_fst_filter bound_filter)
qed

lemma schedInv_cancel_header:
  assumes "schedInv s" "(h, UpdateHeader header) \<in> set (frameCallbacks s)"
  shows "distinct (map fst (filter (\<lambda>(k, c). k \<noteq> h) (frameCallbacks s))) \<and>
         list_all (\<lambda>entry. 0 < fst entry \<and> fst entry \<le> frameCallbackId s)
           (filter (\<lambda>(k, c). k \<noteq> h) (frameCallbacks s)) \<and>
         filter isHeader (filter (\<lambda>(k, c). k \<noteq> h) (frameCallbacks s)) = [] \<and>
         filter isParallax (filter (\<lambda>(k, c). k \<noteq> h) (frameCallbacks s)) =
           (case rafId s of None \<Rightarrow> [] | Some h \<Rightarrow> [(h, UpdateParallax)])"
proof -
  from assms(1) have inv: "distinct (map fst (frameCallbacks s))"
    "list_all (\<lambda>entry. 0 < fst entry \<and> fst entry \<le> frameCallbackId s) (frameCallbacks s)"
    "length (filter isHeader (frameCallbacks s)) = (if ticking s then 1 else 0)"
    "filter isParallax (frameCallbacks s) =
       (case rafId s of None \<Rightarrow> [] | Some h \<Rightarrow> [(h, UpdateParallax)])"
    by (simp_all add: schedInv_def headerPending_def parallaxPending_def)
  from assms(2) have m: "(h, UpdateHeader header) \<in> set (filter isHeader (frameCallbacks s))"
    by simp
  then have "filter isHeader (frameCallbacks s) \<noteq> []"
    by (metis empty_iff empty_set)
  with inv(3) have "length (filter isHeader (frameCallbacks s)) = 1"
    by (cases "ticking s") simp_all
  from singleton_member [OF this m]
  have hd: "filter isHeader (filter (\<lambda>(k, c). k \<noteq> h) (frameCallbacks s)) = []"
    by (rule cancel_filter_same)
  have "filter isParallax (filter (\<lambda>(k, c). k \<noteq> h) (frameCallbacks s)) =
        filter isParallax (frameCallbacks s)"
    by (rule cancel_filter_other [OF inv(1) assms(2)]) simp
  with hd inv show ?thesis
    by (simp add: distinct_fst_filter bound_filter)
qed

lemma schedInv_mouseleave:
  assumes "schedInv s"
  shows "schedInv (parallax_mouseleave d s) \<and> rafId (parallax_mouseleave d s) = None \<and>
         parallaxPending (parallax_mouseleave d s) = []"
proof -
  let ?s1 = "case rafId s of
               None \<Rightarrow> s
             | Some h \<Rightarrow> if h \<noteq> 0 then (cancelAnimationFrame h s)\<lparr>rafId := None\<rparr> else s"
  have sch: "sched (parallax_mouseleave d s) = sched ?s1"
    by (simp add: parallax_mouseleave_def Let_def sched_fold)
  have "schedInv ?s1 \<and> rafId ?s1 = None \<and> parallaxPending ?s1 = []"
  proof (cases "rafId s")
    case None
    with assms show ?thesis by (simp add: schedInv_def)
  next
    case (Some h)
    from assms Some have "(h, UpdateParallax) \<in> set (filter isParallax (frameCallbacks s))"
      and h0: "h \<noteq> 0"
      by (simp_all add: schedInv_def parallaxPending_def)
    then have "(h, UpdateParallax) \<in> set (frameCallbacks s)" by simp
    from schedInv_cancel_parallax [OF assms this] Some h0 show ?thesis
      by (simp add: schedInv_alt sched_rafId cancelAnimationFrame_def parallaxPending_def)
  qed
  moreover from sch have "rafId (parallax_mouseleave d s) = rafId ?s1"
    and "parallaxPending (parallax_mouseleave d s) = parallaxPending ?s1"
    by (simp_all add: sched_def parallaxPending_def)
  ultimately show ?thesis
    using schedInv_sched [OF sch] by simp
qed

lemma schedInv_invoke:
  assumes "schedInv s" "map_of (frameCallbacks s) h = Some cb"
  shows "schedInv (invoke d cb (cancelAnimationFrame h s))"
proof -
  from assms(2) have mem: "(h, cb) \<in> set (frameCallbacks s)"
    by (rule map_of_SomeD)
  show ?thesis
  proof (cases cb)
    case (UpdateHeader header)
    from assms(1) have "rafId s \<noteq> Some 0" by (simp add: schedInv_def)
    with schedInv_cancel_header [OF assms(1) mem [unfolded UpdateHeader]]
    show ?thesis
      by (simp add: UpdateHeader invoke_def schedInv_alt sched_updateHeader
          cancelAnimationFrame_def)
  next
    case UpdateParallax
    from schedInv_cancel_parallax [OF assms(1) mem [unfolded UpdateParallax]]
    have c: "distinct (map fst (filter (\<lambda>(k, c). k \<noteq> h) (frameCallbacks s)))"
      "list_all (\<lambda>entry. 0 < fst entry \<and> fst entry \<le> frameCallbackId s)
         (filter (\<lambda>(k, c). k \<noteq> h) (frameCallbacks s))"
      "length (filter isHeader (filter (\<lambda>(k, c). k \<noteq> h) (frameCallbacks s))) =
         (if ticking s then 1 else 0)"
      "filter isParallax (filter (\<lambda>(k, c). k \<noteq> h) (frameCallbacks s)) = []"
      by simp_all
    from c fresh_handle [OF c(2)] bound_Suc [OF c(2)] show ?thesis
      by (simp add: UpdateParallax invoke_def schedInv_alt sched_updateParallax
          cancelAnimationFrame_def)
  qed
qed

lemma schedInv_runCallbacks: "schedInv s \<Longrightarrow> schedInv (runCallbacks d hs s)"
proof (induction hs arbitrary: s)
  case Nil
  then show ?case by simp
next
  case (Cons h hs)
  show ?case
  proof (cases "map_of (frameCallbacks s) h")
    case None
    with Cons show ?thesis by simp
  next
    case (Some cb)
    from Cons.IH [OF schedInv_invoke [OF Cons.prems Some]] Some show ?thesis by simp
  qed
qed

lemma schedInv_step: "schedInv s \<Longrightarrow> schedInv (step d ev s)"
proof (cases "(\<forall>y. ev \<noteq> Scroll y) \<and> ev \<noteq> AnimationFrame \<and> ev \<noteq> MouseEnter \<and> ev \<noteq> MouseLeave")
  case True
  assume inv: "schedInv s"
  from True have "sched (step d ev s) = sched s" by (intro sched_step) simp_all
  from schedInv_sched [OF this] inv show ?thesis by simp
next
  case False
  assume inv: "schedInv s"
  have scroll: "schedInv (s\<lparr>scrollY := y\<rparr>)" for y
    using inv schedInv_sched [of "s\<lparr>scrollY := y\<rparr>" s] by simp
  from False consider y where "ev = Scroll y" | "ev = AnimationFrame" | "ev = MouseEnter"
    | "ev = MouseLeave" by blast
  then show ?thesis
  proof cases
    case 1
    with scroll [of y] schedInv_onScroll show ?thesis
      by (simp add: step_def split: option.split)
  next
    case 2
    with inv show ?thesis by (simp add: step_def animationFrame_def schedInv_runCallbacks)
  next
    case 3
    with inv show ?thesis by (simp add: step_def schedInv_mouseenter split: option.split)
  next
    case 4
    with inv show ?thesis by (simp add: step_def schedInv_mouseleave split: option.split)
  qed
qed

lemma schedInv_steps: "schedInv s \<Longrightarrow> schedInv (steps d evs s)"
  unfolding steps_def by (induction evs arbitrary: s) (simp_all add: schedInv_step)

lemma sched_init: "sched (init d (loaded st y w)) = (False, [], 0, None)"
proof -
  have "sched (setupScrollAnimations d s) = sched s" for s
    unfolding setupScrollAnimations_def by (rule sched_fold) (simp add: observe_def)
  then show ?thesis
    by (simp add: init_def) (simp add: sched_def setupParallaxEffect_def setupHeaderScroll_def
        loaded_def split: option.split)
qed

lemma schedInv_init: "schedInv (init d (loaded st y w))"
  by (simp add: schedInv_alt sched_init)

lemma schedInv_reachable: "schedInv (steps d evs (init d (loaded st y w)))"
  by (rule schedInv_steps [OF schedInv_init])

lemma getStyle_fold_setStyle:
  "getStyle k p (fold (\<lambda>n. setStyle n p v) ns s) = (if k \<in> set ns then v else getStyle k p s)"
  by (induction ns arbitrary: s) auto

lemma pointer_fold_setStyle:
  "mouseX (fold (\<lambda>n. setStyle n p v) ns s) = mouseX s \<and>
   mouseY (fold (\<lambda>n. setStyle n p v) ns s) = mouseY s"
  by (induction ns arbitrary: s) (simp_all add: setStyle_def)

lemma mouseleave_pointer:
  "mouseX (parallax_mouseleave d s) = mouseX s \<and> mouseY (parallax_mouseleave d s) = mouseY s"
  by (simp add: parallax_mouseleave_def Let_def pointer_fold_setStyle cancelAnimationFrame_def
      split: option.split)

lemma mouseleave_transform:
  assumes "n \<in> set (floatingOrbs d) \<union> set (floatingCubes d)"
  shows "getStyle n ''transform'' (parallax_mouseleave d s) = Str ''''"
  using assms by (auto simp: parallax_mouseleave_def Let_def getStyle_fold_setStyle)

lemma idle_runCallbacks:
  "schedInv s \<Longrightarrow> rafId s = None \<Longrightarrow>
   schedInv (runCallbacks d hs s) \<and> rafId (runCallbacks d hs s) = None"
proof (induction hs arbitrary: s)
  case Nil
  then show ?case by simp
next
  case (Cons h hs)
  show ?case
  proof (cases "map_of (frameCallbacks s) h")
    case None
    with Cons show ?thesis by simp
  next
    case (Some cb)
    let ?s' = "invoke d cb (cancelAnimationFrame h s)"
    from Some have mem: "(h, cb) \<in> set (frameCallbacks s)" by (rule map_of_SomeD)
    have inv': "schedInv ?s'" by (rule schedInv_invoke [OF Cons.prems(1) Some])
    have "rafId ?s' = None"
    proof (cases cb)
      case (UpdateHeader header)
      have "sched ?s' = (False, frameCallbacks (cancelAnimationFrame h s),
                         frameCallbackId (cancelAnimationFrame h s),
                         rafId (cancelAnimationFrame h s))"
        by (simp add: UpdateHeader invoke_def sched_updateHeader)
      then show ?thesis using Cons.prems(2) by (simp add: sched_def cancelAnimationFrame_def)
    next
      case UpdateParallax
      from schedInv_cancel_parallax [OF Cons.prems(1) mem [unfolded UpdateParallax]] Cons.prems(2)
      show ?thesis by simp
    qed
    from Cons.IH [OF inv' this] Some show ?thesis by simp
  qed
qed


text \<open>Evaluating event sequences on the example page with the simplifier.\<close>

lemma setStyle_fields [simp]:
  "frameCallbacks (setStyle n p v s) = frameCallbacks s"
  "frameCallbackId (setStyle n p v s) = frameCallbackId s"
  "ticking (setStyle n p v s) = ticking s"
  "rafId (setStyle n p v s) = rafId s"
  "mouseX (setStyle n p v s) = mouseX s"
  "mouseY (setStyle n p v s) = mouseY s"
  by (simp_all add: setStyle_def)

lemma getStyle_fields [simp]:
  "getStyle n p (s\<lparr>frameCallbacks := fs\<rparr>) = getStyle n p s"
  "getStyle n p (s\<lparr>frameCallbackId := i\<rparr>) = getStyle n p s"
  "getStyle n p (s\<lparr>rafId := r\<rparr>) = getStyle n p s"
  "getStyle n p (s\<lparr>mouseX := mx\<rparr>) = getStyle n p s"
  "getStyle n p (s\<lparr>mouseY := my\<rparr>) = getStyle n p s"
  "getStyle n p (s\<lparr>ticking := b\<rparr>) = getStyle n p s"
  by (simp_all add: getStyle_def)

lemma heroStart_sched:
  "frameCallbacks heroStart = [] \<and> frameCallbackId heroStart = 0 \<and> rafId heroStart = None \<and>
   mouseX heroStart = Some 0 \<and> mouseY heroStart = Some 0 \<and> \<not> ticking heroStart"
  by (simp add: heroStart_def init_def heroPage_def loaded_def setupScrollAnimations_def
      setupParallaxEffect_def setupHeaderScroll_def observe_def setStyle_def update_def)

lemmas parallax_eval = steps_def step_def parallax_mouseenter_def parallax_mouseleave_def
  requestAnimationFrame_def truthy_def handleMouseMove_def normalized_def
  animationFrame_def invoke_def cancelAnimationFrame_def updateParallax_def Let_def scaled_def
  heroPage_def enumerate_eq_zip parallaxPending_def isParallax_def
  onScroll_def updateHeader_def headerPending_def isHeader_def


subsection \<open>Claims on scheduling\<close>

lemma ticking_sched: "sched s' = sched s \<Longrightarrow> ticking s' = ticking s"
  by (simp add: sched_def)

lemma ticking_mouseenter: "ticking (parallax_mouseenter s) = ticking s"
  by (simp add: parallax_mouseenter_def requestAnimationFrame_def Let_def)

lemma ticking_mouseleave: "ticking (parallax_mouseleave d s) = ticking s"
proof -
  let ?s1 = "case rafId s of
               None \<Rightarrow> s
             | Some h \<Rightarrow> if h \<noteq> 0 then (cancelAnimationFrame h s)\<lparr>rafId := None\<rparr> else s"
  have "sched (parallax_mouseleave d s) = sched ?s1"
    by (simp add: parallax_mouseleave_def Let_def sched_fold)
  then have "ticking (parallax_mouseleave d s) = ticking ?s1"
    by (rule ticking_sched)
  then show ?thesis
    by (simp add: cancelAnimationFrame_def split: option.split)
qed

lemma ticking_kept:
  assumes "ticking s" "ev \<noteq> AnimationFrame"
  shows "ticking (step d ev s)"
proof (cases "(\<forall>y. ev \<noteq> Scroll y) \<and> ev \<noteq> MouseEnter \<and> ev \<noteq> MouseLeave")
  case True
  with assms(2) have "sched (step d ev s) = sched s" by (intro sched_step) simp_all
  from ticking_sched [OF this] assms(1) show ?thesis by simp
next
  case False
  then consider y where "ev = Scroll y" | "ev = MouseEnter" | "ev = MouseLeave" by blast
  then show ?thesis
  proof cases
    case 1
    with assms(1) show ?thesis by (simp add: step_def onScroll_def split: option.split)
  next
    case 2
    with assms(1) show ?thesis by (simp add: step_def ticking_mouseenter split: option.split)
  next
    case 3
    with assms(1) show ?thesis by (simp add: step_def ticking_mouseleave split: option.split)
  qed
qed

lemma scroll_while_ticking:
  "ticking s \<Longrightarrow> frameCallbacks (step d (Scroll y) s) = frameCallbacks s"
  by (simp add: step_def onScroll_def split: option.split)

lemma invoked_headers:
  "schedInv s \<Longrightarrow>
   length (filter (\<lambda>cb. isHeader (0, cb)) (invoked d hs s)) \<le> headerPending s"
proof (induction hs arbitrary: s)
  case Nil
  then show ?case by simp
next
  case (Cons h hs)
  show ?case
  proof (cases "map_of (frameCallbacks s) h")
    case None
    with Cons show ?thesis by simp
  next
    case (Some cb)
    let ?s' = "invoke d cb (cancelAnimationFrame h s)"
    from Some have mem: "(h, cb) \<in> set (frameCallbacks s)" by (rule map_of_SomeD)
    have inv': "schedInv ?s'" by (rule schedInv_invoke [OF Cons.prems Some])
    note IH = Cons.IH [OF inv']
    show ?thesis
    proof (cases cb)
      case (UpdateHeader header)
      from mem have "(h, cb) \<in> set (filter isHeader (frameCallbacks s))"
        by (simp add: UpdateHeader)
      then have "filter isHeader (frameCallbacks s) \<noteq> []"
        by (metis empty_iff empty_set)
      then have "1 \<le> headerPending s" by (simp add: headerPending_def Suc_le_eq)
      moreover have "\<not> ticking ?s'" by (simp add: UpdateHeader invoke_def updateHeader_def Let_def)
      with inv' have "headerPending ?s' = 0" by (simp add: schedInv_def)
      ultimately show ?thesis using IH Some by (simp add: UpdateHeader isHeader_def)
    next
      case UpdateParallax
      from schedInv_cancel_parallax [OF Cons.prems mem [unfolded UpdateParallax]]
      have "length (filter isHeader (filter (\<lambda>(k, c). k \<noteq> h) (frameCallbacks s))) =
            headerPending s"
        using Cons.prems by (simp add: schedInv_def)
      moreover have "snd (sched ?s') =
          (filter (\<lambda>(k, c). k \<noteq> h) (frameCallbacks s) @
             [(Suc (frameCallbackId s), UpdateParallax)],
           Suc (frameCallbackId s), Some (Suc (frameCallbackId s)))"
        by (simp add: UpdateParallax invoke_def sched_updateParallax cancelAnimationFrame_def)
      then have "frameCallbacks ?s' =
          filter (\<lambda>(k, c). k \<noteq> h) (frameCallbacks s) @
             [(Suc (frameCallbackId s), UpdateParallax)]"
        by (simp add: sched_def)
      ultimately have "headerPending ?s' = headerPending s"
        by (simp add: headerPending_def)
      with IH Some show ?thesis by (simp add: UpdateParallax isHeader_def)
    qed
  qed
qed

text \<open>
  C7. In every state that a sequence of events (of any kind) reaches from the freshly
  constructed controller, at most one header update callback is pending, and one is
  pending exactly when the guard \<open>ticking\<close> is set. While the guard is set a scroll
  event requests no frame callback, and no event but an animation frame clears the
  guard. An animation frame runs the callbacks pending when it starts, so it runs at
  most one header update.
\<close>

theorem header_updates_coalesced:
  "headerPending (steps d evs (init d (loaded st y w))) \<le> 1 \<and>
   headerPending (steps d evs (init d (loaded st y w))) =
     (if ticking (steps d evs (init d (loaded st y w))) then 1 else 0) \<and>
   headerUpdates d (steps d evs (init d (loaded st y w))) \<le> 1 \<and>
   (ticking s \<longrightarrow> frameCallbacks (step d (Scroll y') s) = frameCallbacks s) \<and>
   (ticking s \<and> \<not> ticking (step d ev s) \<longrightarrow> ev = AnimationFrame)"
proof -
  let ?r = "steps d evs (init d (loaded st y w))"
  have inv: "schedInv ?r"
    by (rule schedInv_reachable)
  then have p: "headerPending ?r = (if ticking ?r then 1 else 0)"
    by (simp add: schedInv_def)
  then have p1: "headerPending ?r \<le> 1" by simp
  from invoked_headers [OF inv, of d "map fst (frameCallbacks ?r)"] p1
  have "headerUpdates d ?r \<le> 1" by (simp add: headerUpdates_def)
  with p p1 show ?thesis
    using scroll_while_ticking [of s d y'] ticking_kept [of s ev d] by auto
qed

theorem header_updates_coalesced_witness:
  "ticking (steps heroPage [Scroll 150, Scroll 200] heroStart) \<and>
   frameCallbacks (step heroPage (Scroll 250) (steps heroPage [Scroll 150, Scroll 200] heroStart)) =
     [(1, UpdateHeader 6)] \<and>
   headerPending (steps heroPage [Scroll 150, Scroll 200, Scroll 250] heroStart) = 1 \<and>
   \<not> ticking (step heroPage AnimationFrame (steps heroPage [Scroll 150, Scroll 200] heroStart)) \<and>
   headerPending (steps heroPage [Scroll 150, Scroll 200, AnimationFrame] heroStart) = 0 \<and>
   headerUpdates heroPage (steps heroPage [Scroll 150, Scroll 200, Scroll 250] heroStart) \<le> 1"
proof -
  let ?s = "steps heroPage [Scroll 150, Scroll 200] heroStart"
  have t: "ticking ?s \<and> frameCallbacks ?s = [(1, UpdateHeader 6)] \<and>
           \<not> ticking (step heroPage AnimationFrame ?s)"
    using heroStart_sched by (simp add: parallax_eval)
  have "ticking (steps heroPage [Scroll 150, Scroll 200, Scroll 250] heroStart) \<and>
        \<not> ticking (steps heroPage [Scroll 150, Scroll 200, AnimationFrame] heroStart)"
    using heroStart_sched by (simp add: parallax_eval)
  with t header_updates_coalesced [of heroPage "[Scroll 150, Scroll 200, Scroll 250]" "\<lambda>n. blank" 0 1200
      ?s 250 AnimationFrame]
    header_updates_coalesced [of heroPage "[Scroll 150, Scroll 200, AnimationFrame]" "\<lambda>n. blank" 0 1200
      ?s 250 AnimationFrame]
  show ?thesis by (simp add: heroStart_def)
qed

text \<open>
  C6 as stated fails: after the pointer has moved to the lower right corner of the hero
  and left, the stored pointer position is still (1, 1), not the neutral (0, 0); when the
  pointer enters again, the first frame moves the orb by that stale position.
\<close>

theorem pointer_state_survives_leave:
  "hero heroPage \<noteq> None \<and>
   mouseX heroStart = Some 0 \<and> mouseY heroStart = Some 0 \<and>
   mouseX (steps heroPage [MouseEnter, MouseMove 100 100 0 0 100 100, AnimationFrame, MouseLeave]
            heroStart) = Some 1 \<and>
   mouseY (steps heroPage [MouseEnter, MouseMove 100 100 0 0 100 100, AnimationFrame, MouseLeave]
            heroStart) = Some 1 \<and>
   getStyle 8 ''transform''
     (steps heroPage [MouseEnter, MouseMove 100 100 0 0 100 100, AnimationFrame, MouseLeave,
                      MouseEnter, AnimationFrame] heroStart) =
     TranslatePx (Some (1 / 2)) (Some (1 / 2))"
  using heroStart_sched by (simp add: parallax_eval)

text \<open>
  C6, amended. In every state reached from the freshly constructed controller on a page
  with a hero region, a pointer-leave clears \<open>rafId\<close> and leaves no parallax callback
  pending, so that the next animation frame does not run the loop nor start it again; it
  sets the inline transform of every orb and every cube to the empty string; and it
  leaves the stored pointer position as it was.
\<close>

theorem pointer_leave_cancels_parallax:
  assumes "hero d \<noteq> None"
  shows "rafId (step d MouseLeave (steps d evs (init d (loaded st y w)))) = None \<and>
         parallaxPending (step d MouseLeave (steps d evs (init d (loaded st y w)))) = [] \<and>
         rafId (step d AnimationFrame
                  (step d MouseLeave (steps d evs (init d (loaded st y w))))) = None \<and>
         parallaxPending (step d AnimationFrame
                  (step d MouseLeave (steps d evs (init d (loaded st y w))))) = [] \<and>
         (\<forall>n \<in> set (floatingOrbs d) \<union> set (floatingCubes d).
            getStyle n ''transform''
              (step d MouseLeave (steps d evs (init d (loaded st y w)))) = Str '''') \<and>
         mouseX (step d MouseLeave (steps d evs (init d (loaded st y w)))) =
           mouseX (steps d evs (init d (loaded st y w))) \<and>
         mouseY (step d MouseLeave (steps d evs (init d (loaded st y w)))) =
           mouseY (steps d evs (init d (loaded st y w)))"
proof -
  let ?s = "steps d evs (init d (loaded st y w))"
  have inv: "schedInv ?s" by (rule schedInv_reachable)
  from assms have leave: "step d MouseLeave ?s = parallax_mouseleave d ?s"
    by (auto simp: step_def)
  from schedInv_mouseleave [OF inv, of d]
  have l: "schedInv (parallax_mouseleave d ?s)" "rafId (parallax_mouseleave d ?s) = None"
    "parallaxPending (parallax_mouseleave d ?s) = []" by simp_all
  from idle_runCallbacks [OF l(1) l(2)]
  have f: "schedInv (step d AnimationFrame (parallax_mouseleave d ?s))"
    "rafId (step d AnimationFrame (parallax_mouseleave d ?s)) = None"
    by (simp_all add: step_def animationFrame_def)
  then have "parallaxPending (step d AnimationFrame (parallax_mouseleave d ?s)) = []"
    by (simp add: schedInv_def)
  with l f show ?thesis
    unfolding leave using mouseleave_pointer [of d ?s] mouseleave_transform [of _ d ?s]
    by simp
qed

theorem pointer_leave_cancels_parallax_witness:
  "hero heroPage \<noteq> None \<and>
   rafId (steps heroPage [MouseEnter, MouseMove 100 100 0 0 100 100, AnimationFrame] heroStart) =
     Some 2 \<and>
   rafId (step heroPage MouseLeave
            (steps heroPage [MouseEnter, MouseMove 100 100 0 0 100 100, AnimationFrame] heroStart)) =
     None \<and>
   parallaxPending (step heroPage MouseLeave
            (steps heroPage [MouseEnter, MouseMove 100 100 0 0 100 100, AnimationFrame] heroStart)) =
     [] \<and>
   getStyle 8 ''transform''
     (steps heroPage [MouseEnter, MouseMove 100 100 0 0 100 100, AnimationFrame] heroStart) =
     TranslatePx (Some (1 / 2)) (Some (1 / 2)) \<and>
   getStyle 8 ''transform'' (step heroPage MouseLeave
            (steps heroPage [MouseEnter, MouseMove 100 100 0 0 100 100, AnimationFrame] heroStart)) =
     Str [] \<and>
   getStyle 9 ''transform'' (step heroPage MouseLeave
            (steps heroPage [MouseEnter, MouseMove 100 100 0 0 100 100, AnimationFrame] heroStart)) =
     Str []"
proof -
  have h: "hero heroPage \<noteq> None" by (simp add: heroPage_def)
  have m: "8 \<in> set (floatingOrbs heroPage) \<union> set (floatingCubes heroPage) \<and>
           9 \<in> set (floatingOrbs heroPage) \<union> set (floatingCubes heroPage)"
    by (simp add: heroPage_def)
  have e: "rafId (steps heroPage [MouseEnter, MouseMove 100 100 0 0 100 100, AnimationFrame] heroStart) =
     Some 2 \<and>
     getStyle 8 ''transform''
     (steps heroPage [MouseEnter, MouseMove 100 100 0 0 100 100, AnimationFrame] heroStart) =
     TranslatePx (Some (1 / 2)) (Some (1 / 2))"
    using heroStart_sched by (simp add: parallax_eval)
  from pointer_leave_cancels_parallax [OF h,
      of "[MouseEnter, MouseMove 100 100 0 0 100 100, AnimationFrame]" "\<lambda>n. blank" 0 1200] h m e
  show ?thesis by (simp add: heroStart_def)
qed

subsection \<open>Reveal on scroll\<close>

lemma observed_update [simp]:
  "observed (setStyle n p v s) = observed s"
  by (simp add: setStyle_def)

lemma getStyle_unobserve [simp]: "getStyle n p (unobserve k s) = getStyle n p s"
  by (simp add: getStyle_def unobserve_def)

lemma observed_unobserve [simp]: "set (observed (unobserve k s)) = set (observed s) - {k}"
  by (auto simp: unobserve_def)

lemma store_unobserve [simp]: "store (unobserve k s) = store s"
  by (simp add: unobserve_def)

lemma store_setStyle_other: "k \<noteq> n \<Longrightarrow> store (setStyle n p v s) k = store s k"
  by (simp add: setStyle_def)

lemma entry_keeps_revealed:
  assumes "revealed target s" "target \<notin> set (observed s)"
  shows "revealed target (scrollAnimations_entry entry s) \<and>
         target \<notin> set (observed (scrollAnimations_entry entry s))"
  using assms
  by (cases entry) (auto simp: scrollAnimations_entry_def revealed_def)

lemma entries_keep_revealed:
  "revealed target s \<Longrightarrow> target \<notin> set (observed s) \<Longrightarrow>
   revealed target (fold scrollAnimations_entry es s) \<and>
   target \<notin> set (observed (fold scrollAnimations_entry es s))"
proof (induction es arbitrary: s)
  case Nil
  then show ?case by simp
next
  case (Cons e es)
  from entry_keeps_revealed [OF Cons.prems, of e] Cons.IH [of "scrollAnimations_entry e s"]
  show ?case by simp
qed

lemma entries_reveal:
  "(target, True) \<in> set es \<Longrightarrow>
   revealed target (fold scrollAnimations_entry es s) \<and>
   target \<notin> set (observed (fold scrollAnimations_entry es s))"
proof (induction es arbitrary: s)
  case Nil
  then show ?case by simp
next
  case (Cons e es)
  show ?case
  proof (cases "e = (target, True)")
    case True
    have "revealed target (scrollAnimations_entry e s) \<and>
          target \<notin> set (observed (scrollAnimations_entry e s))"
      by (simp add: True scrollAnimations_entry_def revealed_def)
    with entries_keep_revealed [of target "scrollAnimations_entry e s" es]
    show ?thesis by simp
  next
    case False
    with Cons.prems have "(target, True) \<in> set es" by simp
    from Cons.IH [OF this, of "scrollAnimations_entry e s"] show ?thesis by simp
  qed
qed

lemma entries_elsewhere:
  "target \<notin> fst ` set es \<Longrightarrow>
   store (fold scrollAnimations_entry es s) target = store s target \<and>
   set (observed (fold scrollAnimations_entry es s)) \<subseteq> set (observed s)"
proof (induction es arbitrary: s)
  case Nil
  then show ?case by simp
next
  case (Cons e es)
  obtain n b where e: "e = (n, b)" by (cases e)
  with Cons.prems have n: "target \<noteq> n" and rest: "target \<notin> fst ` set es" by auto
  have "store (scrollAnimations_entry e s) target = store s target \<and>
        set (observed (scrollAnimations_entry e s)) \<subseteq> set (observed s)"
    using n by (auto simp: e scrollAnimations_entry_def store_setStyle_other)
  with Cons.IH [OF rest, of "scrollAnimations_entry e s"] show ?case by auto
qed

lemma intersect_unobserved:
  assumes "target \<notin> set (observed s)"
  shows "store (intersect batch s) target = store s target \<and>
         target \<notin> set (observed (intersect batch s))"
proof -
  have "target \<notin> fst ` set (filter (\<lambda>entry. fst entry \<in> set (observed s)) batch)"
    using assms by auto
  from entries_elsewhere [OF this, of s] assms show ?thesis
    by (auto simp: intersect_def scrollAnimations_callback_def)
qed

lemma intersects_unobserved:
  "target \<notin> set (observed s) \<Longrightarrow>
   store (steps d (map Intersect batches) s) target = store s target \<and>
   target \<notin> set (observed (steps d (map Intersect batches) s))"
proof (induction batches arbitrary: s)
  case Nil
  then show ?case by (simp add: steps_def)
next
  case (Cons batch batches)
  from intersect_unobserved [OF Cons.prems, of batch]
  have 1: "store (intersect batch s) target = store s target"
    and 2: "target \<notin> set (observed (intersect batch s))" by simp_all
  from Cons.IH [OF 2] 1 show ?case by (simp add: steps_def step_def)
qed

lemma observed_observe [simp]: "set (observed (observe k s)) = insert k (set (observed s))"
  by (auto simp: observe_def)

lemma getStyle_observe [simp]: "getStyle n p (observe k s) = getStyle n p s"
  by (simp add: getStyle_def observe_def)

lemma setup_fold:
  "target \<in> set ns \<or>
     (target \<in> set (observed s) \<and> getStyle target ''opacity'' s = Str ''0'' \<and>
      getStyle target ''transform'' s = Str ''translateY(30px)'') \<Longrightarrow>
   target \<in> set (observed (fold (\<lambda>element s'.
             observe element
               (setStyle element ''transition'' (Str ''opacity 0.6s ease, transform 0.6s ease'')
                  (setStyle element ''transform'' (Str ''translateY(30px)'')
                     (setStyle element ''opacity'' (Str ''0'') s')))) ns s)) \<and>
   getStyle target ''opacity'' (fold (\<lambda>element s'.
             observe element
               (setStyle element ''transition'' (Str ''opacity 0.6s ease, transform 0.6s ease'')
                  (setStyle element ''transform'' (Str ''translateY(30px)'')
                     (setStyle element ''opacity'' (Str ''0'') s')))) ns s) = Str ''0'' \<and>
   getStyle target ''transform'' (fold (\<lambda>element s'.
             observe element
               (setStyle element ''transition'' (Str ''opacity 0.6s ease, transform 0.6s ease'')
                  (setStyle element ''transform'' (Str ''translateY(30px)'')
                     (setStyle element ''opacity'' (Str ''0'') s')))) ns s) =
     Str ''translateY(30px)''"
proof (induction ns arbitrary: s)
  case Nil
  then show ?case by simp
next
  case (Cons n ns)
  let ?s1 = "observe n
               (setStyle n ''transition'' (Str ''opacity 0.6s ease, transform 0.6s ease'')
                  (setStyle n ''transform'' (Str ''translateY(30px)'')
                     (setStyle n ''opacity'' (Str ''0'') s)))"
  from Cons.prems have "target \<in> set ns \<or>
     (target \<in> set (observed ?s1) \<and> getStyle target ''opacity'' ?s1 = Str ''0'' \<and>
      getStyle target ''transform'' ?s1 = Str ''translateY(30px)'')"
    by auto
  from Cons.IH [OF this] show ?case by simp
qed

lemma setup_hides:
  assumes "target \<in> set (animatedElements d)"
  shows "target \<in> set (observed (init d s)) \<and> getStyle target ''opacity'' (init d s) = Str ''0'' \<and>
         getStyle target ''transform'' (init d s) = Str ''translateY(30px)''"
  using setup_fold [of target "animatedElements d"] assms
  by (simp add: init_def setupScrollAnimations_def)

subsection \<open>Claim on the reveal\<close>

text \<open>
  C8. The controller starts with every reveal element observed and hidden (opacity 0,
  moved down by 30px). A batch of intersection changes that reports an observed element
  as intersecting leaves it shown, with opacity 1 and at its natural position, and no
  longer observed. From then on, as for every element that is not observed, no sequence
  of batches changes anything of the element, and it stays unobserved: it is not hidden
  again and the reveal is not run again.
\<close>

theorem reveal_is_one_shot:
  "(target \<in> set (animatedElements d) \<longrightarrow>
      target \<in> set (observed (init d s0)) \<and>
      getStyle target ''opacity'' (init d s0) = Str ''0'' \<and>
      getStyle target ''transform'' (init d s0) = Str ''translateY(30px)'') \<and>
   (target \<in> set (observed s) \<and> (target, True) \<in> set batch \<longrightarrow>
      revealed target (step d (Intersect batch) s) \<and>
      target \<notin> set (observed (step d (Intersect batch) s))) \<and>
   (target \<notin> set (observed s) \<longrightarrow>
      store (steps d (map Intersect batches) s) target = store s target \<and>
      target \<notin> set (observed (steps d (map Intersect batches) s)))"
proof -
  have hidden: "target \<in> set (observed (init d s0)) \<and>
      getStyle target ''opacity'' (init d s0) = Str ''0'' \<and>
      getStyle target ''transform'' (init d s0) = Str ''translateY(30px)''"
    if "target \<in> set (animatedElements d)"
    using setup_hides [OF that, of s0] .
  have shown: "revealed target (step d (Intersect batch) s) \<and>
      target \<notin> set (observed (step d (Intersect batch) s))"
    if a: "target \<in> set (observed s) \<and> (target, True) \<in> set batch"
  proof -
    from a have "(target, True) \<in> set (filter (\<lambda>entry. fst entry \<in> set (observed s)) batch)"
      by simp
    from entries_reveal [OF this, of s] show ?thesis
      by (simp add: step_def intersect_def scrollAnimations_callback_def)
  qed
  have kept: "store (steps d (map Intersect batches) s) target = store s target \<and>
      target \<notin> set (observed (steps d (map Intersect batches) s))"
    if "target \<notin> set (observed s)"
    using intersects_unobserved [OF that, of d batches] .
  from hidden shown kept show ?thesis by blast
qed

theorem reveal_is_one_shot_witness:
  "31 \<in> set (animatedElements heroPage) \<and>
   31 \<in> set (observed heroStart) \<and> getStyle 31 ''opacity'' heroStart = Str ''0'' \<and>
   (31, True) \<in> set [(30, False), (31, True)] \<and>
   revealed 31 (step heroPage (Intersect [(30, False), (31, True)]) heroStart) \<and>
   31 \<notin> set (observed (step heroPage (Intersect [(30, False), (31, True)]) heroStart)) \<and>
   revealed 31
     (steps heroPage (map Intersect [[(31, False)], [(30, True), (31, True)]])
        (step heroPage (Intersect [(30, False), (31, True)]) heroStart)) \<and>
   getStyle 30 ''opacity'' (step heroPage (Intersect [(30, False), (31, True)]) heroStart) =
     Str ''0''"
proof -
  let ?s1 = "step heroPage (Intersect [(30, False), (31, True)]) heroStart"
  have a: "31 \<in> set (animatedElements heroPage)" by (simp add: heroPage_def)
  have "getStyle 30 ''opacity'' heroStart = Str ''0''"
    using reveal_is_one_shot [of 30 heroPage "loaded (\<lambda>n. blank) 0 1200"]
    by (simp add: heroPage_def heroStart_def)
  then have o: "getStyle 30 ''opacity'' ?s1 = Str ''0''"
    by (simp add: step_def intersect_def scrollAnimations_callback_def scrollAnimations_entry_def)
  from reveal_is_one_shot [of 31 heroPage "loaded (\<lambda>n. blank) 0 1200" heroStart
      "[(30, False), (31, True)]" "[]"] a
  have 1: "31 \<in> set (observed heroStart)" "getStyle 31 ''opacity'' heroStart = Str ''0''"
    "revealed 31 ?s1" "31 \<notin> set (observed ?s1)"
    by (simp_all add: heroStart_def)
  from reveal_is_one_shot [of 31 heroPage "loaded (\<lambda>n. blank) 0 1200" ?s1
      "[]" "[[(31, False)], [(30, True), (31, True)]]"] 1(4)
  have "store (steps heroPage (map Intersect [[(31, False)], [(30, True), (31, True)]]) ?s1) 31 =
        store ?s1 31" by simp
  with 1(3) have "revealed 31
     (steps heroPage (map Intersect [[(31, False)], [(30, True), (31, True)]]) ?s1)"
    by (simp add: revealed_def getStyle_def)
  with a 1 o show ?thesis by simp
qed

end
